theory Spec2Isabelle
  imports Main
begin

section \<open>Strings of the action's inputs\<close>

text \<open>
  A JavaScript string is taken as a list of code units below 256, which is what
  \<^typ>\<open>char\<close> holds. Of the characters the regular-expression class \<^verbatim>\<open>\s\<close>
  (and \<^verbatim>\<open>String.prototype.trim\<close>) treats as white space, those below 256 are
  tab, line feed, vertical tab, form feed, carriage return, space and the
  no-break space.
\<close>

definition is_space :: "char \<Rightarrow> bool" where
  "is_space c = (of_char c \<in> {9, 10, 11, 12, 13, 32, 160 :: nat})"

definition newline :: char where
  "newline = CHR 0x0A"

text \<open>\<^verbatim>\<open>Boolean(s)\<close> of a string: the empty string is the only falsy one.\<close>

definition truthy :: "string \<Rightarrow> bool" where
  "truthy s = (s \<noteq> [])"

text \<open>\<^verbatim>\<open>a || b\<close> on strings.\<close>

definition or_else :: "string \<Rightarrow> string \<Rightarrow> string" where
  "or_else a b = (if truthy a then a else b)"

text \<open>\<^verbatim>\<open>s.trim()\<close>\<close>

definition trim :: "string \<Rightarrow> string" where
  "trim s = rev (dropWhile is_space (rev (dropWhile is_space s)))"

text \<open>
  \<^verbatim>\<open>s.split(/\s+/)\<close>: the scan keeps the token read so far (reversed) in \<open>acc\<close>;
  at a white-space character the regular expression matches the whole run, the
  token is emitted and the scan resumes after the run. The end of the string
  emits the last token, empty or not.
\<close>

function split_ws_from :: "string \<Rightarrow> string \<Rightarrow> string list" where
  "split_ws_from acc [] = [rev acc]"
| "split_ws_from acc (c # cs) =
     (if is_space c then rev acc # split_ws_from [] (dropWhile is_space cs)
      else split_ws_from (c # acc) cs)"
  by pat_completeness auto
termination
  by (relation "measure (\<lambda>(acc, s). length s)")
     (auto simp: le_imp_less_Suc length_dropWhile_le)

definition split_ws :: "string \<Rightarrow> string list" where
  "split_ws s = split_ws_from [] s"

text \<open>
  \<^verbatim>\<open>s.split(/\s*\n\s*/)\<close>: the regular expression matches at a position exactly
  when the white-space run that starts there holds a line feed, and then it
  consumes the whole run (both \<^verbatim>\<open>\s*\<close> are greedy). White space with no line
  feed in its run stays inside the token.
\<close>

definition run_has_newline :: "string \<Rightarrow> bool" where
  "run_has_newline s = (newline \<in> set (takeWhile is_space s))"

function split_nl_from :: "string \<Rightarrow> string \<Rightarrow> string list" where
  "split_nl_from acc [] = [rev acc]"
| "split_nl_from acc (c # cs) =
     (if is_space c \<and> run_has_newline (c # cs)
      then rev acc # split_nl_from [] (dropWhile is_space cs)
      else split_nl_from (c # acc) cs)"
  by pat_completeness auto
termination
  by (relation "measure (\<lambda>(acc, s). length s)")
     (auto simp: le_imp_less_Suc length_dropWhile_le)

definition split_nl :: "string \<Rightarrow> string list" where
  "split_nl s = split_nl_from [] s"

subsection \<open>Gathering the inputs (index.js, lines 12 to 21)\<close>

text \<open>
  \<^verbatim>\<open>core.getInput(name)\<close> returns a string, the empty one when the input is
  absent; the functions below take that string.
\<close>

definition parse_deps :: "string \<Rightarrow> string list" where
  "parse_deps input = filter truthy (split_ws (or_else input ''''))"

text \<open>
  The supervisor directive is \<^verbatim>\<open>true\<close>, \<^verbatim>\<open>false\<close> or an array of service
  strings.
\<close>

datatype supervisor = Sup_true | Sup_false | Sup_services "string list"

definition parse_supervisor :: "string \<Rightarrow> supervisor" where
  "parse_supervisor input =
     (if input = ''true'' then Sup_true
      else if \<not> truthy input then Sup_false
      else Sup_services (filter truthy (split_nl (trim input))))"

text \<open>
  \<^verbatim>\<open>if (supervisor)\<close>: every array is truthy, the empty one too.
\<close>

fun supervisor_enabled :: "supervisor \<Rightarrow> bool" where
  "supervisor_enabled Sup_true = True"
| "supervisor_enabled Sup_false = False"
| "supervisor_enabled (Sup_services svcs) = True"

text \<open>
  A template literal prints an undefined environment variable as
  \<^verbatim>\<open>undefined\<close>.
\<close>

definition template_var :: "string option \<Rightarrow> string" where
  "template_var v = (case v of None \<Rightarrow> ''undefined'' | Some s \<Rightarrow> s)"

definition resolve_cache_key :: "string \<Rightarrow> string option \<Rightarrow> string" where
  "resolve_cache_key input workflow =
     or_else input (''hab-artifacts-cache:'' @ template_var workflow)"

record config =
  deps :: "string list"
  supervisor :: supervisor
  cacheKey :: string

text \<open>
  \<open>getInput\<close> is \<^verbatim>\<open>core.getInput\<close>, \<open>workflow\<close> is
  \<^verbatim>\<open>process.env.GITHUB_WORKFLOW\<close>.
\<close>

definition gather_input :: "(string \<Rightarrow> string) \<Rightarrow> string option \<Rightarrow> config" where
  "gather_input getInput workflow =
     \<lparr> deps = parse_deps (getInput ''deps''),
       supervisor = parse_supervisor (getInput ''supervisor''),
       cacheKey = resolve_cache_key (getInput ''cache-key'') workflow \<rparr>"

section \<open>The runner: files, effects and the platform\<close>

text \<open>
  Everything the two routines do is a call into the runner: the Actions
  toolkit (\<^verbatim>\<open>core\<close>, \<^verbatim>\<open>exec\<close>, \<^verbatim>\<open>io\<close>, \<^verbatim>\<open>cache\<close>) and \<^verbatim>\<open>fs\<close>. The
  world holds the paths that exist and the calls made so far, oldest first.
  \<open>Exec\<close> records the command line, the argument array and whether the
  options forward \<^verbatim>\<open>habEnv\<close>. \<open>Threw\<close> is a history entry, put right after
  the call that failed, with the message of the error.
\<close>

datatype event =
    ExportVariable string string
  | Info string
  | ConsoleInfo string
  | StartGroup string
  | EndGroup
  | SetFailed string
  | Which string
  | Exec string "string list" bool
  | RmRF string
  | ExistsSync string
  | WriteFileSync string string
  | RestoreCache "string list" string
  | SaveCache "string list" string
  | Threw string

record world =
  files :: "string set"
  trace :: "event list"

text \<open>
  The platform is a parameter: it says, for each call and the world the call is
  made in, whether the call fails (and with which message), what it returns and
  which paths exist afterwards. \<^verbatim>\<open>fs.existsSync\<close> and \<^verbatim>\<open>fs.writeFileSync\<close>
  read and write \<open>files\<close> themselves; a write can fail.
\<close>

record exec_outcome =
  exec_error :: "string option"
  exec_stdout :: "string list"
  exec_files :: "string set"

record platform =
  process_env :: "string \<Rightarrow> string option"
  exportVariable_error :: "world \<Rightarrow> string \<Rightarrow> string \<Rightarrow> string option"
  which_result :: "world \<Rightarrow> string \<Rightarrow> string + string"
  exec_result :: "world \<Rightarrow> string \<Rightarrow> string list \<Rightarrow> bool \<Rightarrow> exec_outcome"
  rmRF_result :: "world \<Rightarrow> string \<Rightarrow> string option \<times> string set"
  writeFileSync_error :: "world \<Rightarrow> string \<Rightarrow> string option"
  restoreCache_result ::
    "world \<Rightarrow> string list \<Rightarrow> string \<Rightarrow> (string + string option) \<times> string set"
  saveCache_result ::
    "world \<Rightarrow> string list \<Rightarrow> string \<Rightarrow> (string + int) \<times> string set"

subsection \<open>Completions of JavaScript statements\<close>

text \<open>
  A statement or an awaited expression ends normally with a value, with
  \<^verbatim>\<open>return\<close> out of the enclosing function, or with a thrown error (of which
  the model keeps the message). Inside an \<^verbatim>\<open>async\<close> function a throw that
  nothing catches rejects the promise the function returned.
\<close>

datatype 'a completion = Val 'a | Ret | Thr string

type_synonym 'a js = "world \<Rightarrow> 'a completion \<times> world"

definition js_value :: "'a \<Rightarrow> 'a js" where
  "js_value x = (\<lambda>w. (Val x, w))"

definition skip :: "unit js" where
  "skip = js_value ()"

definition js_return :: "unit js" where
  "js_return = (\<lambda>w. (Ret, w))"

definition bind :: "'a js \<Rightarrow> ('a \<Rightarrow> 'b js) \<Rightarrow> 'b js" where
  "bind m f = (\<lambda>w. case m w of
       (Val x, w') \<Rightarrow> f x w'
     | (Ret, w') \<Rightarrow> (Ret, w')
     | (Thr e, w') \<Rightarrow> (Thr e, w'))"

text \<open>A block: the statements in order, stopping at the first abrupt one.\<close>

fun block :: "unit js list \<Rightarrow> unit js" where
  "block [] = skip"
| "block (s # ss) = bind s (\<lambda>_. block ss)"

text \<open>\<^verbatim>\<open>if (c) { ... }\<close> with no else.\<close>

definition if_then :: "bool \<Rightarrow> unit js \<Rightarrow> unit js" where
  "if_then c body = (if c then body else skip)"

text \<open>
  \<^verbatim>\<open>finally\<close>: the finaliser always runs; when it completes normally the
  completion of the try or catch block stands.
\<close>

definition then_finally :: "unit completion \<times> world \<Rightarrow> unit js \<Rightarrow> unit completion \<times> world" where
  "then_finally r fin = (case fin (snd r) of
       (Val _, w') \<Rightarrow> (fst r, w')
     | (c, w') \<Rightarrow> (c, w'))"

definition try_catch_finally :: "unit js \<Rightarrow> (string \<Rightarrow> unit js) \<Rightarrow> unit js \<Rightarrow> unit js" where
  "try_catch_finally body handler fin = (\<lambda>w. case body w of
       (Thr msg, w') \<Rightarrow> then_finally (handler msg w') fin
     | r \<Rightarrow> then_finally r fin)"

definition try_catch :: "unit js \<Rightarrow> (string \<Rightarrow> unit js) \<Rightarrow> unit js" where
  "try_catch body handler = (\<lambda>w. case body w of
       (Thr msg, w') \<Rightarrow> handler msg w'
     | r \<Rightarrow> r)"

subsection \<open>The calls into the runner\<close>

definition emit :: "event \<Rightarrow> world \<Rightarrow> world" where
  "emit e w = w\<lparr>trace := trace w @ [e]\<rparr>"

definition log :: "event \<Rightarrow> unit js" where
  "log e = (\<lambda>w. (Val (), emit e w))"

definition core_info :: "string \<Rightarrow> unit js" where
  "core_info msg = log (Info msg)"

definition console_info :: "string \<Rightarrow> unit js" where
  "console_info msg = log (ConsoleInfo msg)"

definition core_startGroup :: "string \<Rightarrow> unit js" where
  "core_startGroup name = log (StartGroup name)"

definition core_endGroup :: "unit js" where
  "core_endGroup = log EndGroup"

definition core_setFailed :: "string \<Rightarrow> unit js" where
  "core_setFailed msg = log (SetFailed msg)"

definition core_exportVariable :: "platform \<Rightarrow> string \<Rightarrow> string \<Rightarrow> unit js" where
  "core_exportVariable pf name val = (\<lambda>w.
     case exportVariable_error pf w name val of
       None \<Rightarrow> (Val (), emit (ExportVariable name val) w)
     | Some msg \<Rightarrow> (Thr msg, emit (Threw msg) (emit (ExportVariable name val) w)))"

definition io_which :: "platform \<Rightarrow> string \<Rightarrow> string js" where
  "io_which pf tool = (\<lambda>w.
     case which_result pf w tool of
       Inr path \<Rightarrow> (Val path, emit (Which tool) w)
     | Inl msg \<Rightarrow> (Thr msg, emit (Threw msg) (emit (Which tool) w)))"

text \<open>
  \<^verbatim>\<open>exec(commandLine, args, options)\<close>. The \<^verbatim>\<open>stdout\<close> listener of the
  options is called on each chunk the command prints, in order; \<open>listener\<close>
  is its effect on the variable it closes over.
\<close>

definition exec_listen ::
  "platform \<Rightarrow> string \<Rightarrow> string list \<Rightarrow> bool \<Rightarrow> ('s \<Rightarrow> string \<Rightarrow> 's) \<Rightarrow> 's \<Rightarrow> 's js" where
  "exec_listen pf commandLine args env listener s = (\<lambda>w.
     let r = exec_result pf w commandLine args env;
         w' = emit (Exec commandLine args env) (w\<lparr>files := exec_files r\<rparr>)
     in case exec_error r of
          None \<Rightarrow> (Val (foldl listener s (exec_stdout r)), w')
        | Some msg \<Rightarrow> (Thr msg, emit (Threw msg) w'))"

definition exec :: "platform \<Rightarrow> string \<Rightarrow> string list \<Rightarrow> bool \<Rightarrow> unit js" where
  "exec pf commandLine args env = exec_listen pf commandLine args env (\<lambda>u chunk. u) ()"

definition io_rmRF :: "platform \<Rightarrow> string \<Rightarrow> unit js" where
  "io_rmRF pf path = (\<lambda>w.
     let w' = emit (RmRF path) (w\<lparr>files := snd (rmRF_result pf w path)\<rparr>)
     in case fst (rmRF_result pf w path) of
          None \<Rightarrow> (Val (), w')
        | Some msg \<Rightarrow> (Thr msg, emit (Threw msg) w'))"

definition fs_existsSync :: "string \<Rightarrow> bool js" where
  "fs_existsSync path = (\<lambda>w. (Val (path \<in> files w), emit (ExistsSync path) w))"

definition fs_writeFileSync :: "platform \<Rightarrow> string \<Rightarrow> string \<Rightarrow> unit js" where
  "fs_writeFileSync pf path data = (\<lambda>w.
     case writeFileSync_error pf w path of
       None \<Rightarrow> (Val (), emit (WriteFileSync path data) (w\<lparr>files := insert path (files w)\<rparr>))
     | Some msg \<Rightarrow> (Thr msg, emit (Threw msg) (emit (WriteFileSync path data) w)))"

definition cache_restoreCache :: "platform \<Rightarrow> string list \<Rightarrow> string \<Rightarrow> string option js" where
  "cache_restoreCache pf paths key = (\<lambda>w.
     let w' = emit (RestoreCache paths key) (w\<lparr>files := snd (restoreCache_result pf w paths key)\<rparr>)
     in case fst (restoreCache_result pf w paths key) of
          Inr hit \<Rightarrow> (Val hit, w')
        | Inl msg \<Rightarrow> (Thr msg, emit (Threw msg) w'))"

definition cache_saveCache :: "platform \<Rightarrow> string list \<Rightarrow> string \<Rightarrow> int js" where
  "cache_saveCache pf paths key = (\<lambda>w.
     let w' = emit (SaveCache paths key) (w\<lparr>files := snd (saveCache_result pf w paths key)\<rparr>)
     in case fst (saveCache_result pf w paths key) of
          Inr cacheId \<Rightarrow> (Val cacheId, w')
        | Inl msg \<Rightarrow> (Thr msg, emit (Threw msg) w'))"

section \<open>The setup routine (index.js)\<close>

definition CACHE_LOCK_PATH :: string where
  "CACHE_LOCK_PATH = ''/hab/cache/artifacts/.cached''"

definition RESTORE_LOCK_PATH :: string where
  "RESTORE_LOCK_PATH = ''/hab/cache/artifacts/.restored''"

text \<open>\<^verbatim>\<open>xs.join(sep)\<close>\<close>

fun join :: "string \<Rightarrow> string list \<Rightarrow> string" where
  "join sep [] = []"
| "join sep [x] = x"
| "join sep (x # y # ys) = x @ sep @ join sep (y # ys)"

text \<open>
  The phases of \<^verbatim>\<open>run\<close>, one definition for each commented block of the
  source. The last argument of \<open>exec\<close> says whether the call passes
  \<^verbatim>\<open>{ env: habEnv }\<close>.
\<close>

definition install_biome :: "platform \<Rightarrow> unit js" where
  "install_biome pf =
     try_catch_finally
       (block [
          core_startGroup ''Installing Biome'',
          exec pf ''wget https://github.com/biome-sh/biome/releases/download/v1.6.372/bio-1.6.372-x86_64-linux.tar.gz'' [] False,
          exec pf ''tar xf bio-1.6.372-x86_64-linux.tar.gz'' [] False,
          exec pf ''sudo mv bio /usr/bin'' [] False,
          exec pf ''sudo chmod +x /usr/bin/bio'' [] False,
          io_rmRF pf ''bio-1.6.372-x86_64-linux.tar.gz''])
       (\<lambda>msg. block [core_setFailed (''Failed to install Biome: '' @ msg), js_return])
       core_endGroup"

definition create_hab_user :: "platform \<Rightarrow> unit js" where
  "create_hab_user pf =
     try_catch_finally
       (block [
          core_startGroup ''Creating hab user'',
          exec pf ''sudo groupadd hab'' [] False,
          exec pf ''sudo useradd -g hab -G docker hab'' [] False,
          io_rmRF pf ''/tmp/hab-install.sh''])
       (\<lambda>msg. block [core_setFailed (''Failed to create hab user: '' @ msg), js_return])
       core_endGroup"

definition verify_installation :: "platform \<Rightarrow> unit js" where
  "verify_installation pf =
     try_catch
       (exec pf ''bio --version'' [] False)
       (\<lambda>msg. block [core_setFailed (''Failed to verify bio installation: '' @ msg), js_return])"

definition link_user_cache :: "platform \<Rightarrow> unit js" where
  \<open>link_user_cache pf =
     try_catch_finally
       (block [
          core_startGroup ''Linking ~/.hab/cache to /hab/cache'',
          exec pf (''mkdir -p "'' @ template_var (process_env pf ''HOME'') @ ''/.hab"'') [] False,
          exec pf (''ln -sf /hab/cache "'' @ template_var (process_env pf ''HOME'') @ ''/.hab/"'') [] False])
       (\<lambda>msg. block [core_setFailed (''Failed to link ~/.hab/cache: '' @ msg), js_return])
       core_endGroup\<close>

definition update_cache_ownership :: "platform \<Rightarrow> unit js" where
  "update_cache_ownership pf =
     try_catch_finally
       (block [
          core_startGroup ''Updating cache ownership'',
          exec pf ''sudo mkdir -p /hab/cache'' [] False,
          exec pf ''sudo chown -R runner:docker /hab/cache'' [] False,
          exec pf ''sudo chmod g+s /hab/cache'' [] False])
       (\<lambda>msg. block [core_setFailed (''Failed to update cache ownership: '' @ msg), js_return])
       core_endGroup"

text \<open>
  \<^verbatim>\<open>restoredCache ? ... : ...\<close>: the cache key that was hit, or undefined; the
  empty string is falsy as well.
\<close>

definition restored_message :: "string option \<Rightarrow> string" where
  "restored_message restoredCache =
     (case restoredCache of
        None \<Rightarrow> ''No cache restored''
      | Some k \<Rightarrow> if truthy k then ''Restored cache '' @ k else ''No cache restored'')"

definition restore_cache :: "platform \<Rightarrow> string \<Rightarrow> unit js" where
  \<open>restore_cache pf key =
     bind (fs_existsSync RESTORE_LOCK_PATH) (\<lambda>restored.
       if restored
       then core_info (''Skipping restoring, '' @ RESTORE_LOCK_PATH @ '' already exists'')
       else
         try_catch_finally
           (block [
              core_startGroup ''Restoring package cache'',
              core_info ''Initializing runner-writable /hab/cache'',
              exec pf ''mkdir -p /hab/cache/artifacts'' [] False,
              core_info (''Writing restore lock: '' @ RESTORE_LOCK_PATH),
              fs_writeFileSync pf RESTORE_LOCK_PATH '''',
              console_info (''Calling restoreCache: '' @ key),
              bind (cache_restoreCache pf [''/hab/cache/artifacts''] key) (\<lambda>restoredCache.
                block [
                  core_info (restored_message restoredCache),
                  core_info (''Re-writing restore lock: '' @ RESTORE_LOCK_PATH),
                  fs_writeFileSync pf RESTORE_LOCK_PATH '''',
                  bind (fs_existsSync CACHE_LOCK_PATH) (\<lambda>cached.
                    if_then cached
                      (block [
                         core_info (''Erasing cache lock: '' @ CACHE_LOCK_PATH),
                         exec pf (''rm -v "'' @ CACHE_LOCK_PATH @ ''"'') [] False]))])])
           (\<lambda>msg. block [core_setFailed (''Failed to restore package cache: '' @ msg), js_return])
           core_endGroup)\<close>

definition install_deps :: "platform \<Rightarrow> string list \<Rightarrow> unit js" where
  "install_deps pf ds =
     if_then (ds \<noteq> [])
       (try_catch_finally
          (block [
             core_startGroup (''Installing deps: '' @ join '' '' ds),
             exec pf ''sudo --preserve-env bio pkg install'' ds True])
          (\<lambda>msg. block [core_setFailed (''Failed to install deps: '' @ msg), js_return])
          core_endGroup)"

definition start_supervisor :: "platform \<Rightarrow> unit js" where
  \<open>start_supervisor pf =
     try_catch_finally
       (block [
          core_startGroup ''Starting supervisor'',
          exec pf ''sudo mkdir -p /hab/sup/default'' [] False,
          exec pf ''sudo --preserve-env setsid bash''
            [''-c'', ''bio sup run > /hab/sup/default/sup.log 2>&1 &''] True,
          core_info ''Waiting for supervisor secret...'',
          exec pf ''bash''
            [''-c'', ''until test -f /hab/sup/default/CTL_SECRET; do echo -n "."; sleep .1; done; echo''] False,
          core_info ''Enabling sudoless access to supervisor API...'',
          exec pf ''sudo chgrp docker /hab/sup/default/CTL_SECRET'' [] False,
          exec pf ''sudo chmod g+r /hab/sup/default/CTL_SECRET'' [] False,
          core_info ''Waiting for supervisor...'',
          exec pf ''bash''
            [''-c'', ''until bio svc status; do echo -n "."; sleep .1; done; echo''] False])
       (\<lambda>msg. block [core_setFailed (''Failed to start supervisor: '' @ msg), js_return])
       core_endGroup\<close>

definition load_service :: "platform \<Rightarrow> string \<Rightarrow> unit js" where
  "load_service pf svc =
     try_catch_finally
       (block [
          core_startGroup (''Loading service: '' @ svc),
          exec pf (''bio svc load '' @ svc) [] True])
       (\<lambda>msg. block [core_setFailed (''Failed to load service: '' @ msg), js_return])
       core_endGroup"

text \<open>\<^verbatim>\<open>for (const svc of supervisor) { ... }\<close>\<close>

fun load_services :: "platform \<Rightarrow> string list \<Rightarrow> unit js" where
  "load_services pf [] = skip"
| "load_services pf (svc # svcs) = bind (load_service pf svc) (\<lambda>_. load_services pf svcs)"

text \<open>\<^verbatim>\<open>if (Array.isArray(supervisor)) { for ... }\<close>\<close>

fun load_supervisor_services :: "platform \<Rightarrow> supervisor \<Rightarrow> unit js" where
  "load_supervisor_services pf (Sup_services svcs) = load_services pf svcs"
| "load_supervisor_services pf Sup_true = skip"
| "load_supervisor_services pf Sup_false = skip"

text \<open>
  In the template literal of the \<^verbatim>\<open>find\<close> command the escape \<^verbatim>\<open>\;\<close> is the
  character \<^verbatim>\<open>;\<close>.
\<close>

definition enable_sudoless :: "platform \<Rightarrow> unit js" where
  "enable_sudoless pf =
     try_catch_finally
       (block [
          core_startGroup ''Enabling sudoless package installation'',
          exec pf ''sudo chown -R runner:docker /hab/pkgs'' [] False,
          exec pf ''find /hab/pkgs -maxdepth 3 -type d -exec sudo chmod g+ws {} ;'' [] False])
       (\<lambda>msg. block [core_setFailed (''Failed to enable sudoless package installation: '' @ msg), js_return])
       core_endGroup"

definition export_variables :: "platform \<Rightarrow> unit js" where
  "export_variables pf =
     block [
       core_exportVariable pf ''HAB_NONINTERACTIVE'' ''true'',
       core_exportVariable pf ''HAB_BLDR_URL'' ''https://bldr.biome.sh'',
       core_exportVariable pf ''STUDIO_TYPE'' ''default'']"

definition ensure_biome :: "platform \<Rightarrow> unit js" where
  "ensure_biome pf =
     bind (io_which pf ''bio'') (\<lambda>path.
       if truthy path then core_info ''Biome already installed!''
       else block [
         install_biome pf,
         create_hab_user pf,
         verify_installation pf,
         link_user_cache pf])"

definition run :: "platform \<Rightarrow> config \<Rightarrow> unit js" where
  "run pf cfg =
     block [
       export_variables pf,
       ensure_biome pf,
       update_cache_ownership pf,
       restore_cache pf (cacheKey cfg),
       install_deps pf (deps cfg),
       if_then (supervisor_enabled (supervisor cfg))
         (block [
            start_supervisor pf,
            load_supervisor_services pf (supervisor cfg)]),
       enable_sudoless pf]"

text \<open>
  The module body: \<^verbatim>\<open>try { module.exports = run(); } catch (err) { ... }\<close>.
  \<^verbatim>\<open>run\<close> is an \<^verbatim>\<open>async\<close> function, so the call itself never throws: an error
  that escapes \<^verbatim>\<open>run\<close> rejects the exported promise and the \<^verbatim>\<open>catch\<close> block is
  never entered. The completion \<open>Thr msg\<close> of \<open>index_main\<close> is that rejection.
\<close>

definition index_main :: "platform \<Rightarrow> (string \<Rightarrow> string) \<Rightarrow> unit js" where
  "index_main pf getInput = run pf (gather_input getInput (process_env pf ''GITHUB_WORKFLOW''))"

subsection \<open>The command/output helper\<close>

text \<open>
  \<^verbatim>\<open>execOutput(commandLine, args, options)\<close>: the listener appends each chunk
  to the local variable \<^verbatim>\<open>stdout\<close>, which starts empty.
\<close>

definition execOutput :: "platform \<Rightarrow> string \<Rightarrow> string list \<Rightarrow> bool \<Rightarrow> string js" where
  "execOutput pf commandLine args env =
     bind (exec_listen pf commandLine args env (\<lambda>stdout buffer. stdout @ buffer) '''')
       (\<lambda>stdout. js_value (trim stdout))"

section \<open>The teardown routine (post.js)\<close>

definition post_CACHE_LOCK_PATH :: string where
  "post_CACHE_LOCK_PATH = ''/hab/pkgs/.cached''"

text \<open>Template literal of a number: decimal digits, with a minus sign when negative.\<close>

fun show_nat :: "nat \<Rightarrow> string" where
  "show_nat n =
     (if n < 10 then [''0123456789'' ! n]
      else show_nat (n div 10) @ [''0123456789'' ! (n mod 10)])"

definition show_int :: "int \<Rightarrow> string" where
  "show_int i = (if i < 0 then ''-'' @ show_nat (nat (- i)) else show_nat (nat i))"

text \<open>\<^verbatim>\<open>cacheId ? ... : ...\<close>: the number 0 is falsy.\<close>

definition saved_message :: "int \<Rightarrow> string" where
  "saved_message cacheId =
     (if cacheId \<noteq> 0 then ''Saved cache '' @ show_int cacheId else ''No cache saved'')"

definition post_run :: "platform \<Rightarrow> unit js" where
  "post_run pf =
     bind (fs_existsSync post_CACHE_LOCK_PATH) (\<lambda>cached.
       if cached
       then core_info (''Skipping caching, '' @ post_CACHE_LOCK_PATH @ '' already exists'')
       else
         try_catch_finally
           (block [
              core_startGroup ''Saving package cache'',
              fs_writeFileSync pf post_CACHE_LOCK_PATH '''',
              bind (cache_saveCache pf [''/hab/pkgs''] ''hab-pkgs'') (\<lambda>cacheId.
                core_info (saved_message cacheId))])
           (\<lambda>msg. block [core_setFailed (''Failed to save package cache: '' @ msg), js_return])
           core_endGroup)"

section \<open>An example runner\<close>

text \<open>
  A runner on which every call succeeds: \<^verbatim>\<open>rm -v "P"\<close> and \<^verbatim>\<open>io.rmRF\<close> remove
  the path they name, no other command touches the paths the routines look
  at, \<^verbatim>\<open>bio\<close> is on the search path, the cache has no entry to restore and a
  save returns the identifier 7.
\<close>

definition plain_exec :: "world \<Rightarrow> string \<Rightarrow> string list \<Rightarrow> bool \<Rightarrow> exec_outcome" where
  \<open>plain_exec w commandLine args env =
     \<lparr> exec_error = None,
       exec_stdout = [],
       exec_files =
         (if take 7 commandLine = ''rm -v "'' \<and> 7 < length commandLine
               \<and> last commandLine = CHR 0x22
          then files w - {butlast (drop 7 commandLine)}
          else files w) \<rparr>\<close>

definition plain_runner :: platform where
  "plain_runner =
     \<lparr> process_env =
         (\<lambda>v. if v = ''HOME'' then Some ''/home/runner''
              else if v = ''GITHUB_WORKFLOW'' then Some ''CI'' else None),
       exportVariable_error = (\<lambda>w name val. None),
       which_result = (\<lambda>w tool. Inr ''/usr/bin/bio''),
       exec_result = plain_exec,
       rmRF_result = (\<lambda>w path. (None, files w - {path})),
       writeFileSync_error = (\<lambda>w path. None),
       restoreCache_result = (\<lambda>w paths key. (Inr None, files w)),
       saveCache_result = (\<lambda>w paths key. (Inr 7, files w)) \<rparr>"

section \<open>The parsing of the inputs, as the specification words it\<close>

text \<open>
  The dependency list: the input is split on runs of white space and the empty
  tokens are dropped, which leaves the maximal pieces with no white space in
  them, in order.
\<close>

function spec_tokens :: "string \<Rightarrow> string list" where
  "spec_tokens [] = []"
| "spec_tokens (c # cs) =
     (if is_space c then spec_tokens cs
      else (c # takeWhile (\<lambda>d. \<not> is_space d) cs)
             # spec_tokens (dropWhile (\<lambda>d. \<not> is_space d) cs))"
  by pat_completeness auto
termination
  by (relation "measure length") (auto simp: le_imp_less_Suc length_dropWhile_le)

text \<open>
  The service list: the input is split at every line feed, each entry has its
  surrounding white space trimmed, and the empty entries are dropped.
\<close>

fun split_lines :: "string \<Rightarrow> string list" where
  "split_lines [] = [[]]"
| "split_lines (c # cs) =
     (if c = newline then [] # split_lines cs
      else (case split_lines cs of
              l # ls \<Rightarrow> (c # l) # ls
            | [] \<Rightarrow> [[c]]))"

definition spec_services :: "string \<Rightarrow> string list" where
  "spec_services input = filter (\<lambda>l. l \<noteq> []) (map trim (split_lines input))"

text \<open>
  Two notions for the proofs: the lines of a string read with an accumulator,
  as the scans of the source read it, and strings with no white space at either
  end.
\<close>

fun lines_from :: "string \<Rightarrow> string \<Rightarrow> string list" where
  "lines_from acc [] = [rev acc]"
| "lines_from acc (c # cs) =
     (if c = newline then rev acc # lines_from [] cs else lines_from (c # acc) cs)"

definition trimmed :: "string \<Rightarrow> bool" where
  "trimmed t = (t = [] \<or> (\<not> is_space (hd t) \<and> \<not> is_space (last t)))"

section \<open>Reading traces\<close>

text \<open>The events a computation added to the trace of the world it started in.\<close>

definition new_events :: "world \<Rightarrow> world \<Rightarrow> event list" where
  "new_events w w' = drop (length (trace w)) (trace w')"

definition extends :: "world \<Rightarrow> world \<Rightarrow> bool" where
  "extends w w' = (take (length (trace w)) (trace w') = trace w)"

fun is_RestoreCache :: "event \<Rightarrow> bool" where
  "is_RestoreCache (RestoreCache paths key) = True"
| "is_RestoreCache e = False"

fun is_SaveCache :: "event \<Rightarrow> bool" where
  "is_SaveCache (SaveCache paths key) = True"
| "is_SaveCache e = False"

fun is_Threw :: "event \<Rightarrow> bool" where
  "is_Threw (Threw msg) = True"
| "is_Threw e = False"

fun is_SetFailed :: "event \<Rightarrow> bool" where
  "is_SetFailed (SetFailed msg) = True"
| "is_SetFailed e = False"

definition restore_calls :: "world \<Rightarrow> nat" where
  "restore_calls w = length (filter is_RestoreCache (trace w))"

definition save_calls :: "world \<Rightarrow> nat" where
  "save_calls w = length (filter is_SaveCache (trace w))"

text \<open>
  A relation between the world before and the world after that holds of
  every run of a computation; two such relations: every new event satisfies
  \<open>P\<close>, and the path \<open>p\<close> is not lost.
\<close>

definition steps :: "(world \<Rightarrow> world \<Rightarrow> bool) \<Rightarrow> 'a js \<Rightarrow> bool" where
  "steps R m = (\<forall>w. R w (snd (m w)))"

definition emits :: "(event \<Rightarrow> bool) \<Rightarrow> world \<Rightarrow> world \<Rightarrow> bool" where
  "emits P w w' = (extends w w' \<and> list_all P (new_events w w'))"

definition keeps :: "string \<Rightarrow> world \<Rightarrow> world \<Rightarrow> bool" where
  "keeps p w w' = (p \<in> files w \<longrightarrow> p \<in> files w')"

text \<open>
  A runner keeps a marker file when nothing removes the file but a command
  that is told to: \<^verbatim>\<open>rm -v\<close> of that path, or \<^verbatim>\<open>io.rmRF\<close> of it.
\<close>

definition keeps_marker :: "platform \<Rightarrow> string \<Rightarrow> bool" where
  \<open>keeps_marker pf p = (\<forall>w. p \<in> files w \<longrightarrow>
       (\<forall>commandLine args env. commandLine \<noteq> ''rm -v "'' @ p @ ''"'' \<longrightarrow>
           p \<in> exec_files (exec_result pf w commandLine args env))
     \<and> (\<forall>path. path \<noteq> p \<longrightarrow> p \<in> snd (rmRF_result pf w path))
     \<and> (\<forall>paths key. p \<in> snd (restoreCache_result pf w paths key))
     \<and> (\<forall>paths key. p \<in> snd (saveCache_result pf w paths key)))\<close>

text \<open>
  A marker guards a call when the call is made at most once more, not at all
  if the marker was there, and leaves the marker there when it was made.
\<close>

definition guarded_once :: "string \<Rightarrow> (world \<Rightarrow> nat) \<Rightarrow> world \<Rightarrow> world \<Rightarrow> bool" where
  "guarded_once p calls w w' =
     (calls w \<le> calls w' \<and> calls w' \<le> calls w + 1
      \<and> (p \<in> files w \<longrightarrow> p \<in> files w' \<and> calls w' = calls w)
      \<and> (calls w' = calls w + 1 \<longrightarrow> p \<in> files w'))"

section \<open>Weakest preconditions\<close>

text \<open>
  \<open>wp m Q w\<close>: running \<open>m\<close> in \<open>w\<close> ends with a completion and a world that
  satisfy \<open>Q\<close>. The three continuations say what \<open>Q\<close> becomes behind a
  \<open>bind\<close>, a \<^verbatim>\<open>catch\<close> and a \<^verbatim>\<open>finally\<close>.
\<close>

definition wp :: "'a js \<Rightarrow> ('a completion \<Rightarrow> world \<Rightarrow> bool) \<Rightarrow> world \<Rightarrow> bool" where
  "wp m Q w = Q (fst (m w)) (snd (m w))"

definition after ::
  "('a \<Rightarrow> 'b js) \<Rightarrow> ('b completion \<Rightarrow> world \<Rightarrow> bool) \<Rightarrow> 'a completion \<Rightarrow> world \<Rightarrow> bool" where
  "after f Q c w = (case c of Val x \<Rightarrow> wp (f x) Q w | Ret \<Rightarrow> Q Ret w | Thr e \<Rightarrow> Q (Thr e) w)"

definition finishing ::
  "unit js \<Rightarrow> (unit completion \<Rightarrow> world \<Rightarrow> bool) \<Rightarrow> unit completion \<Rightarrow> world \<Rightarrow> bool" where
  "finishing fin Q c w = wp fin (\<lambda>cf wf. Q (case cf of Val u \<Rightarrow> c | Ret \<Rightarrow> cf | Thr e \<Rightarrow> cf) wf) w"

definition catching ::
  "(string \<Rightarrow> unit js) \<Rightarrow> (unit completion \<Rightarrow> world \<Rightarrow> bool) \<Rightarrow> unit completion \<Rightarrow> world \<Rightarrow> bool" where
  "catching handler Q c w =
     (case c of Val u \<Rightarrow> Q c w | Ret \<Rightarrow> Q c w | Thr msg \<Rightarrow> wp (handler msg) Q w)"

section \<open>Properties of traces\<close>

text \<open>The call that was recorded last failed: a \<open>Threw\<close> comes right behind it.\<close>

definition failed :: "event list \<Rightarrow> bool" where
  "failed es = (es \<noteq> [] \<and> is_Threw (hd es))"

text \<open>
  \<open>marker_first p is_call False evs\<close>: every event of \<open>evs\<close> that is a call
  (as \<open>is_call\<close> says) comes after a write of the file \<open>p\<close> that succeeded.
  The flag says whether such a write has been seen.
\<close>

fun marker_first :: "string \<Rightarrow> (event \<Rightarrow> bool) \<Rightarrow> bool \<Rightarrow> event list \<Rightarrow> bool" where
  "marker_first p is_call written [] = True"
| "marker_first p is_call written (e # es) =
     (if is_call e then written \<and> marker_first p is_call written es
      else if e = WriteFileSync p [] \<and> \<not> failed es then marker_first p is_call True es
      else marker_first p is_call written es)"

text \<open>
  \<open>rewritten_after p evs\<close>: behind every \<open>RestoreCache\<close> of \<open>evs\<close> that
  did not fail, the file \<open>p\<close> is written again.
\<close>

fun rewritten_after :: "string \<Rightarrow> event list \<Rightarrow> bool" where
  "rewritten_after p [] = True"
| "rewritten_after p (e # es) =
     (if is_RestoreCache e \<and> \<not> failed es
      then WriteFileSync p [] \<in> set es \<and> rewritten_after p es
      else rewritten_after p es)"

text \<open>
  The events of the installation sub-phases of the setup routine: the commands
  that download, unpack and move the binary, create the group and the user,
  verify the version and link the cache directory, every \<^verbatim>\<open>io.rmRF\<close>, and the
  log groups of these sub-phases.
\<close>

definition install_commands :: "platform \<Rightarrow> string list" where
  \<open>install_commands pf =
     [''wget https://github.com/biome-sh/biome/releases/download/v1.6.372/bio-1.6.372-x86_64-linux.tar.gz'',
      ''tar xf bio-1.6.372-x86_64-linux.tar.gz'',
      ''sudo mv bio /usr/bin'',
      ''sudo chmod +x /usr/bin/bio'',
      ''sudo groupadd hab'',
      ''sudo useradd -g hab -G docker hab'',
      ''bio --version'',
      ''mkdir -p "'' @ template_var (process_env pf ''HOME'') @ ''/.hab"'',
      ''ln -sf /hab/cache "'' @ template_var (process_env pf ''HOME'') @ ''/.hab/"'']\<close>

fun is_install_event :: "platform \<Rightarrow> event \<Rightarrow> bool" where
  "is_install_event pf (Exec commandLine args env) = (commandLine \<in> set (install_commands pf))"
| "is_install_event pf (RmRF path) = True"
| "is_install_event pf (StartGroup name) =
     (name \<in> set [''Installing Biome'', ''Creating hab user'',
        ''Linking ~/.hab/cache to /hab/cache''])"
| "is_install_event pf e = False"

section \<open>The command/output helper returns the trimmed output\<close>

lemma foldl_append_concat:
  "foldl (\<lambda>stdout buffer. stdout @ buffer) acc chunks = acc @ concat chunks"
  by (induction chunks arbitrary: acc) simp_all

text \<open>
  C10. When the command succeeds, \<open>execOutput\<close> returns the concatenation of
  the chunks its listener received, trimmed; when the command fails, the
  failure propagates with its message and no string is returned.
\<close>

theorem execOutput_trimmed_stdout:
  "(exec_error (exec_result pf w commandLine args env) = None \<longrightarrow>
      fst (execOutput pf commandLine args env w) =
        Val (trim (concat (exec_stdout (exec_result pf w commandLine args env)))))
   \<and> (\<forall>msg. exec_error (exec_result pf w commandLine args env) = Some msg \<longrightarrow>
      fst (execOutput pf commandLine args env w) = Thr msg)"
  by (simp add: execOutput_def exec_listen_def bind_def js_value_def Let_def
      foldl_append_concat split: option.splits)

theorem execOutput_trimmed_stdout_witness:
  "fst (execOutput
      (plain_runner\<lparr>exec_result := (\<lambda>w c a e.
         \<lparr>exec_error = None, exec_stdout = ['' 1.6'', ''.372 ''], exec_files = files w\<rparr>)\<rparr>)
      ''bio --version'' [] False \<lparr>files = {}, trace = []\<rparr>) = Val ''1.6.372''
   \<and> fst (execOutput
      (plain_runner\<lparr>exec_result := (\<lambda>w c a e.
         \<lparr>exec_error = Some ''exit code 1'', exec_stdout = [''1.6''], exec_files = files w\<rparr>)\<rparr>)
      ''bio --version'' [] False \<lparr>files = {}, trace = []\<rparr>) = Thr ''exit code 1''"
  using execOutput_trimmed_stdout
      [of "plain_runner\<lparr>exec_result := (\<lambda>w c a e.
         \<lparr>exec_error = None, exec_stdout = ['' 1.6'', ''.372 ''], exec_files = files w\<rparr>)\<rparr>"
        "\<lparr>files = {}, trace = []\<rparr>" "''bio --version''" "[]" False]
    execOutput_trimmed_stdout
      [of "plain_runner\<lparr>exec_result := (\<lambda>w c a e.
         \<lparr>exec_error = Some ''exit code 1'', exec_stdout = [''1.6''], exec_files = files w\<rparr>)\<rparr>"
        "\<lparr>files = {}, trace = []\<rparr>" "''bio --version''" "[]" False]
  by (simp add: trim_def is_space_def)

section \<open>Parsing the inputs\<close>

subsection \<open>The dependency list\<close>

lemma or_else_empty [simp]: "or_else a [] = a"
  by (simp add: or_else_def truthy_def)

lemma truthy_simps [simp]:
  "truthy [] = False" "truthy (x # xs) = True" "truthy (xs @ ys) = (truthy xs \<or> truthy ys)"
  "truthy (rev xs) = truthy xs"
  by (simp_all add: truthy_def)

lemma spec_tokens_skip_spaces: "spec_tokens (dropWhile is_space s) = spec_tokens s"
  by (induction s) simp_all

lemma spec_tokens_first:
  "spec_tokens s =
     (if takeWhile (\<lambda>d. \<not> is_space d) s = [] then []
      else [takeWhile (\<lambda>d. \<not> is_space d) s]) @ spec_tokens (dropWhile (\<lambda>d. \<not> is_space d) s)"
  by (cases s) simp_all

lemma split_ws_from_tokens:
  "filter truthy (split_ws_from acc s) =
     (if rev acc @ takeWhile (\<lambda>d. \<not> is_space d) s = [] then []
      else [rev acc @ takeWhile (\<lambda>d. \<not> is_space d) s])
     @ spec_tokens (dropWhile (\<lambda>d. \<not> is_space d) s)"
proof (induction acc s rule: split_ws_from.induct)
  case (1 acc)
  then show ?case by (cases acc) simp_all
next
  case (2 acc c cs)
  show ?case
  proof (cases "is_space c")
    case True
    have "spec_tokens cs = spec_tokens (dropWhile is_space cs)"
      by (simp add: spec_tokens_skip_spaces)
    also have "\<dots> = filter truthy (split_ws_from [] (dropWhile is_space cs))"
      using 2(1) [OF True] spec_tokens_first [of "dropWhile is_space cs"] by simp
    finally show ?thesis using True by (cases acc) simp_all
  next
    case False
    then show ?thesis using 2(2) by simp
  qed
qed

lemma parse_deps_tokens: "parse_deps input = spec_tokens input"
  using split_ws_from_tokens [of "[]" input] spec_tokens_first [of input]
  by (simp add: parse_deps_def split_ws_def)

lemma spec_tokens_blank: "list_all is_space s \<Longrightarrow> spec_tokens s = []"
  by (induction s) simp_all

subsection \<open>The supervisor directive\<close>

lemma is_space_newline [simp]: "is_space newline"
  by (simp add: is_space_def newline_def)

lemma split_lines_nonempty [simp]: "split_lines s \<noteq> []"
  by (induction s) (simp_all split: list.splits)

lemma lines_from_split_lines:
  "lines_from acc s = (rev acc @ hd (split_lines s)) # tl (split_lines s)"
  by (induction s arbitrary: acc) (simp_all split: list.splits)

lemma trim_Nil [simp]: "trim [] = []"
  by (simp add: trim_def)

lemma dropWhile_all_spaces: "list_all is_space ws \<Longrightarrow> dropWhile is_space (ws @ ys) = dropWhile is_space ys"
  by (induction ws) simp_all

lemma trim_spaces_append [simp]: "list_all is_space ws \<Longrightarrow> trim (ws @ x) = trim x"
  by (simp add: trim_def dropWhile_all_spaces)

lemma trim_append_spaces [simp]:
  assumes "list_all is_space ws"
  shows "trim (x @ ws) = trim x"
proof -
  have ws: "list_all is_space (rev ws)"
    using assms by (simp add: list_all_iff)
  show ?thesis
  proof (cases "list_all is_space x")
    case True
    then have "dropWhile is_space (x @ ws) = []" "dropWhile is_space x = []"
      using assms by (simp_all add: dropWhile_all_spaces list_all_iff)
    then show ?thesis unfolding trim_def by (simp only:)
  next
    case False
    then have "dropWhile is_space (x @ ws) = dropWhile is_space x @ ws"
      by (auto simp: dropWhile_append list_all_iff)
    then show ?thesis using ws by (simp add: trim_def dropWhile_all_spaces)
  qed
qed

lemma last_dropWhile: "dropWhile P xs \<noteq> [] \<Longrightarrow> last (dropWhile P xs) = last xs"
  by (induction xs) (auto split: if_splits)

lemma trimmed_trim: "trimmed (trim s)"
proof (cases "trim s = []")
  case True
  then show ?thesis by (simp add: trimmed_def)
next
  case False
  define m where "m = dropWhile is_space s"
  define n where "n = dropWhile is_space (rev m)"
  have t: "trim s = rev n" by (simp add: trim_def m_def n_def)
  with False have n: "n \<noteq> []" by simp
  then have m: "m \<noteq> []" by (auto simp: n_def)
  have "\<not> is_space (hd n)" using n unfolding n_def by (rule hd_dropWhile)
  then have l: "\<not> is_space (last (trim s))" using n by (simp add: t last_rev)
  have "last n = last (rev m)" using n unfolding n_def by (rule last_dropWhile)
  then have "hd (trim s) = hd m" using n m by (simp add: t hd_rev last_rev)
  moreover have "\<not> is_space (hd m)" using m unfolding m_def by (rule hd_dropWhile)
  ultimately show ?thesis using l by (simp add: trimmed_def)
qed

lemma trim_trimmed: "trimmed t \<Longrightarrow> trim t = t"
  by (metis dropWhile_eq_self_iff hd_rev rev_swap trim_Nil trim_def trimmed_def)

lemma trim_decompose:
  "\<exists>l r. list_all is_space l \<and> list_all is_space r \<and> s = l @ trim s @ r"
proof -
  define m where "m = dropWhile is_space s"
  have s: "s = takeWhile is_space s @ m" by (simp add: m_def)
  have "rev m = takeWhile is_space (rev m) @ dropWhile is_space (rev m)" by simp
  then have "m = rev (dropWhile is_space (rev m)) @ rev (takeWhile is_space (rev m))"
    by (metis rev_append rev_rev_ident)
  then have "s = takeWhile is_space s @ trim s @ rev (takeWhile is_space (rev m))"
    using s by (simp add: trim_def m_def)
  moreover have "list_all is_space (takeWhile is_space s)"
    "list_all is_space (rev (takeWhile is_space (rev m)))"
    by (auto simp: list_all_iff dest: set_takeWhileD)
  ultimately show ?thesis by blast
qed


lemma lines_from_spaces:
  "list_all is_space r \<Longrightarrow> newline \<notin> set r \<Longrightarrow>
   lines_from acc (r @ rest) = lines_from (rev r @ acc) rest"
  by (induction r arbitrary: acc) auto

lemma lines_from_blank_acc:
  "list_all is_space acc \<Longrightarrow>
   filter truthy (map trim (lines_from acc s)) = filter truthy (map trim (lines_from [] s))"
proof -
  assume "list_all is_space acc"
  then have "list_all is_space (rev acc)" by (simp add: list_all_iff)
  then show ?thesis
    using lines_from_split_lines [of acc s] lines_from_split_lines [of "[]" s]
    by (cases "split_lines s") simp_all
qed

lemma lines_from_break:
  "list_all is_space r \<Longrightarrow> newline \<in> set r \<Longrightarrow>
   filter truthy (map trim (lines_from acc (r @ rest))) =
   filter truthy (trim (rev acc) # map trim (lines_from [] rest))"
proof (induction r arbitrary: acc)
  case Nil
  then show ?case by simp
next
  case (Cons c r)
  show ?case
  proof (cases "c = newline")
    case True
    show ?thesis
    proof (cases "newline \<in> set r")
      case True
      with Cons have "filter truthy (map trim (lines_from [] (r @ rest))) =
        filter truthy (trim (rev []) # map trim (lines_from [] rest))"
        by simp
      with \<open>c = newline\<close> show ?thesis by simp
    next
      case False
      with Cons have "lines_from [] (r @ rest) = lines_from (rev r) rest"
        by (simp add: lines_from_spaces)
      moreover have "list_all is_space (rev r)"
        using Cons.prems by (simp add: list_all_iff)
      ultimately show ?thesis
        using \<open>c = newline\<close> lines_from_blank_acc [of "rev r" rest] by simp
    qed
  next
    case False
    with Cons.prems have "newline \<in> set r" "list_all is_space r" "is_space c"
      by simp_all
    with Cons.IH [of "c # acc"] False show ?thesis by simp
  qed
qed

lemma split_nl_from_lines:
  "filter truthy (map trim (split_nl_from acc s)) = filter truthy (map trim (lines_from acc s))"
proof (induction acc s rule: split_nl_from.induct)
  case (1 acc)
  then show ?case by simp
next
  case (2 acc c cs)
  show ?case
  proof (cases "is_space c \<and> run_has_newline (c # cs)")
    case True
    define r where "r = takeWhile is_space (c # cs)"
    have r: "list_all is_space r" "newline \<in> set r" "c # cs = r @ dropWhile is_space cs"
      using True by (auto simp: r_def run_has_newline_def list_all_iff dest: set_takeWhileD)
    have "filter truthy (map trim (lines_from acc (c # cs))) =
      filter truthy (trim (rev acc) # map trim (lines_from [] (dropWhile is_space cs)))"
      using lines_from_break [OF r(1,2), of acc "dropWhile is_space cs"] r(3) by simp
    with True 2(1) show ?thesis by simp
  next
    case False
    then have "c \<noteq> newline"
      by (auto simp: run_has_newline_def)
    with False 2(2) show ?thesis by auto
  qed
qed

lemma lines_from_trailing:
  "list_all is_space r \<Longrightarrow>
   filter truthy (map trim (lines_from acc (x @ r))) = filter truthy (map trim (lines_from acc x))"
proof (induction x arbitrary: acc)
  case Nil
  show ?case
  proof (cases "newline \<in> set r")
    case True
    then show ?thesis using lines_from_break [OF Nil True, of acc "[]"] by simp
  next
    case False
    then show ?thesis using lines_from_spaces [OF Nil False, of acc "[]"] Nil by simp
  qed
next
  case (Cons c x)
  then show ?case by simp
qed

lemma lines_from_leading:
  "list_all is_space l \<Longrightarrow>
   filter truthy (map trim (lines_from [] (l @ x))) = filter truthy (map trim (lines_from [] x))"
proof (cases "newline \<in> set l")
  case True
  assume "list_all is_space l"
  then show ?thesis using lines_from_break [OF _ True, of "[]" x] by simp
next
  case False
  assume l: "list_all is_space l"
  then have "list_all is_space (rev l)" by (simp add: list_all_iff)
  then show ?thesis
    using lines_from_spaces [OF l False, of "[]" x] lines_from_blank_acc [of "rev l" x] by simp
qed

lemma lines_from_trim:
  "filter truthy (map trim (lines_from [] (trim s))) = filter truthy (map trim (lines_from [] s))"
proof -
  obtain l r where lr: "list_all is_space l" "list_all is_space r" "s = l @ trim s @ r"
    using trim_decompose by blast
  have "filter truthy (map trim (lines_from [] s)) =
    filter truthy (map trim (lines_from [] (l @ trim s @ r)))"
    using lr(3) by simp
  also have "\<dots> = filter truthy (map trim (lines_from [] (trim s @ r)))"
    using lr(1) by (rule lines_from_leading)
  also have "\<dots> = filter truthy (map trim (lines_from [] (trim s)))"
    using lr(2) by (rule lines_from_trailing)
  finally show ?thesis by simp
qed

lemma run_has_newline_Cons:
  "run_has_newline (c # cs) = (is_space c \<and> (c = newline \<or> run_has_newline cs))"
  by (auto simp: run_has_newline_def)

lemma split_nl_from_trimmed:
  "trimmed (rev acc @ s) \<Longrightarrow> (acc \<noteq> [] \<and> is_space (hd acc) \<longrightarrow> \<not> run_has_newline s) \<Longrightarrow>
   list_all trimmed (split_nl_from acc s)"
proof (induction acc s rule: split_nl_from.induct)
  case (1 acc)
  then show ?case by simp
next
  case (2 acc c cs)
  show ?case
  proof (cases "is_space c \<and> run_has_newline (c # cs)")
    case True
    have a: "trimmed (rev acc)"
    proof (cases "acc = []")
      case True
      then show ?thesis by (simp add: trimmed_def)
    next
      case False
      with 2(4) True have "\<not> is_space (hd acc)" by blast
      then have "\<not> is_space (last (rev acc))" using False by (simp add: last_rev)
      moreover have "hd (rev acc @ c # cs) = hd (rev acc)"
        using False by (simp add: hd_append)
      then have "\<not> is_space (hd (rev acc))"
        using 2(3) by (simp add: trimmed_def)
      ultimately show ?thesis by (simp add: trimmed_def)
    qed
    have "trimmed (dropWhile is_space cs)"
    proof (cases "dropWhile is_space cs = []")
      case True
      then show ?thesis by (simp add: trimmed_def)
    next
      case False
      then have "\<not> is_space (hd (dropWhile is_space cs))" by (rule hd_dropWhile)
      moreover have "last (dropWhile is_space cs) = last (rev acc @ c # cs)"
        using False last_dropWhile [of is_space cs] by auto
      ultimately show ?thesis using 2(3) by (simp add: trimmed_def)
    qed
    then have "list_all trimmed (split_nl_from [] (dropWhile is_space cs))"
      using 2(1) [OF True] by simp
    with a True show ?thesis by simp
  next
    case False
    have "trimmed (rev (c # acc) @ cs)" using 2(3) by simp
    moreover have "(c # acc \<noteq> [] \<and> is_space (hd (c # acc)) \<longrightarrow> \<not> run_has_newline cs)"
      using False by (auto simp: run_has_newline_Cons)
    ultimately have "list_all trimmed (split_nl_from (c # acc) cs)"
      using 2(2) [OF False] by blast
    with False show ?thesis by auto
  qed
qed

lemma map_trim_trimmed: "list_all trimmed ts \<Longrightarrow> map trim ts = ts"
  by (induction ts) (simp_all add: trim_trimmed)

lemma services_refine: "filter truthy (split_nl (trim s)) = spec_services s"
proof -
  have "list_all trimmed (split_nl_from [] (trim s))"
    by (rule split_nl_from_trimmed) (simp_all add: trimmed_trim)
  then have "filter truthy (split_nl (trim s)) = filter truthy (map trim (split_nl_from [] (trim s)))"
    by (simp add: split_nl_def map_trim_trimmed)
  also have "\<dots> = filter truthy (map trim (lines_from [] (trim s)))"
    by (rule split_nl_from_lines)
  also have "\<dots> = filter truthy (map trim (lines_from [] s))"
    by (rule lines_from_trim)
  also have "\<dots> = spec_services s"
    using lines_from_split_lines [of "[]" s] by (simp add: spec_services_def truthy_def [abs_def])
  finally show ?thesis .
qed

lemma spec_tokens_clean:
  "list_all (\<lambda>t. t \<noteq> [] \<and> list_all (\<lambda>c. \<not> is_space c) t) (spec_tokens s)"
proof (induction s rule: spec_tokens.induct)
  case 1
  then show ?case by simp
next
  case (2 c cs)
  have "list_all (\<lambda>c. \<not> is_space c) (takeWhile (\<lambda>d. \<not> is_space d) cs)"
    unfolding list_all_iff by (blast dest: set_takeWhileD)
  with 2 show ?case by simp
qed

text \<open>
  C4. Whatever the value of the deps input, the parsed list is the list of its
  maximal white-space-free pieces: none is empty and none holds white space.
  An input that is empty or all white space gives the empty list, and with
  the empty list the dependency phase does nothing at all: it returns normally
  in the world it started in, with no call recorded.
\<close>

theorem parse_deps_whitespace_tokens:
  "parse_deps input = spec_tokens input
   \<and> list_all (\<lambda>t. t \<noteq> [] \<and> list_all (\<lambda>c. \<not> is_space c) t) (parse_deps input)
   \<and> (list_all is_space input \<longrightarrow>
        parse_deps input = [] \<and> install_deps pf (parse_deps input) w = (Val (), w))"
  using spec_tokens_clean [of input]
  by (simp add: parse_deps_tokens spec_tokens_blank install_deps_def if_then_def skip_def
      js_value_def)

theorem parse_deps_whitespace_tokens_witness:
  "list_all is_space [CHR '' '', newline, CHR 0x09]
   \<and> parse_deps [CHR '' '', newline, CHR 0x09] = []
   \<and> install_deps plain_runner (parse_deps [CHR '' '', newline, CHR 0x09])
        \<lparr>files = {}, trace = []\<rparr> = (Val (), \<lparr>files = {}, trace = []\<rparr>)"
  using parse_deps_whitespace_tokens
    [of "[CHR '' '', newline, CHR 0x09]" plain_runner "\<lparr>files = {}, trace = []\<rparr>"]
  by (simp add: is_space_def newline_def install_deps_def if_then_def skip_def js_value_def)

text \<open>
  C5. The string \<^verbatim>\<open>true\<close> gives the directive \<open>Sup_true\<close>: the supervisor is
  enabled and no service is loaded. The empty string, which is also what an
  absent input reads as, gives \<open>Sup_false\<close>: disabled. Every other value gives
  an array, so the supervisor is enabled, and the array holds the lines of the
  input with their surrounding white space trimmed and the empty ones dropped.
\<close>

theorem parse_supervisor_cases:
  "parse_supervisor ''true'' = Sup_true
   \<and> supervisor_enabled Sup_true \<and> load_supervisor_services pf Sup_true = skip
   \<and> parse_supervisor '''' = Sup_false \<and> \<not> supervisor_enabled Sup_false
   \<and> (input \<noteq> ''true'' \<and> input \<noteq> '''' \<longrightarrow>
        parse_supervisor input = Sup_services (spec_services input)
        \<and> supervisor_enabled (parse_supervisor input)
        \<and> load_supervisor_services pf (parse_supervisor input) =
            load_services pf (spec_services input))"
  by (simp add: parse_supervisor_def services_refine truthy_def)

theorem parse_supervisor_cases_witness:
  "''core/mysql  '' @ [newline, CHR 0x09] @ ''emergence/nginx --bind=x '' @ [newline] \<noteq> ''true''
   \<and> ''core/mysql  '' @ [newline, CHR 0x09] @ ''emergence/nginx --bind=x '' @ [newline] \<noteq> ''''
   \<and> parse_supervisor
       (''core/mysql  '' @ [newline, CHR 0x09] @ ''emergence/nginx --bind=x '' @ [newline]) =
     Sup_services [''core/mysql'', ''emergence/nginx --bind=x'']"
  using parse_supervisor_cases
    [of plain_runner "''core/mysql  '' @ [newline, CHR 0x09] @ ''emergence/nginx --bind=x '' @ [newline]"]
  by (simp add: spec_services_def trim_def is_space_def newline_def
      del: trim_append_spaces trim_spaces_append)

section \<open>Relations that every step keeps\<close>

named_theorems steps_intros

lemma steps_bind [steps_intros]:
  assumes "transp R" and "steps R m" and "\<And>x. steps R (f x)"
  shows "steps R (bind m f)"
  unfolding steps_def bind_def
proof
  fix w
  obtain c w' where m: "m w = (c, w')" by (cases "m w")
  have 1: "R w w'" using assms(2) m by (auto simp: steps_def dest: spec [of _ w])
  show "R w (snd (case m w of (Val x, w') \<Rightarrow> f x w' | (Ret, w') \<Rightarrow> (Ret, w') | (Thr e, w') \<Rightarrow> (Thr e, w')))"
  proof (cases c)
    case (Val x)
    have "R w' (snd (f x w'))" using assms(3) [of x] by (simp add: steps_def)
    with 1 assms(1) have "R w (snd (f x w'))" by (blast dest: transpD)
    then show ?thesis using m Val by simp
  qed (use 1 m in simp_all)
qed

lemma steps_skip [steps_intros]: "reflp R \<Longrightarrow> steps R skip"
  by (simp add: steps_def skip_def js_value_def reflpD)

lemma steps_js_value [steps_intros]: "reflp R \<Longrightarrow> steps R (js_value x)"
  by (simp add: steps_def js_value_def reflpD)

lemma steps_js_return [steps_intros]: "reflp R \<Longrightarrow> steps R js_return"
  by (simp add: steps_def js_return_def reflpD)

lemma steps_block_Nil [steps_intros]: "reflp R \<Longrightarrow> steps R (block [])"
  by (simp add: steps_skip)

lemma steps_block_Cons [steps_intros]:
  "transp R \<Longrightarrow> steps R s \<Longrightarrow> steps R (block ss) \<Longrightarrow> steps R (block (s # ss))"
  by (simp add: steps_bind)

lemma steps_if [steps_intros]:
  "(c \<Longrightarrow> steps R a) \<Longrightarrow> (\<not> c \<Longrightarrow> steps R b) \<Longrightarrow> steps R (if c then a else b)"
  by simp

lemma steps_if_then [steps_intros]:
  "reflp R \<Longrightarrow> (c \<Longrightarrow> steps R body) \<Longrightarrow> steps R (if_then c body)"
  by (simp add: if_then_def steps_skip)

lemma steps_then_finally:
  assumes "transp R" and "steps R fin" and "R w (snd r)"
  shows "R w (snd (then_finally r fin))"
proof -
  have "R (snd r) (snd (fin (snd r)))" using assms(2) by (simp add: steps_def)
  with assms(1,3) have "R w (snd (fin (snd r)))" by (blast dest: transpD)
  then show ?thesis
    by (auto simp: then_finally_def split: prod.splits completion.splits)
qed

lemma steps_try_catch_finally [steps_intros]:
  assumes "transp R" and "steps R body" and "\<And>msg. steps R (handler msg)" and "steps R fin"
  shows "steps R (try_catch_finally body handler fin)"
  unfolding steps_def
proof
  fix w
  obtain c w' where b: "body w = (c, w')" by (cases "body w")
  have 1: "R w w'" using assms(2) b by (auto simp: steps_def dest: spec [of _ w])
  show "R w (snd (try_catch_finally body handler fin w))"
  proof (cases c)
    case (Thr msg)
    have "R w' (snd (handler msg w'))" using assms(3) [of msg] by (simp add: steps_def)
    with 1 assms(1) have "R w (snd (handler msg w'))" by (blast dest: transpD)
    then show ?thesis
      using b Thr steps_then_finally [OF assms(1,4)] by (simp add: try_catch_finally_def)
  qed (use 1 b steps_then_finally [OF assms(1,4), of w "(c, w')"] in \<open>simp_all add: try_catch_finally_def\<close>)
qed

lemma steps_try_catch [steps_intros]:
  assumes "transp R" and "steps R body" and "\<And>msg. steps R (handler msg)"
  shows "steps R (try_catch body handler)"
  unfolding steps_def
proof
  fix w
  obtain c w' where b: "body w = (c, w')" by (cases "body w")
  have 1: "R w w'" using assms(2) b by (auto simp: steps_def dest: spec [of _ w])
  show "R w (snd (try_catch body handler w))"
  proof (cases c)
    case (Thr msg)
    have "R w' (snd (handler msg w'))" using assms(3) [of msg] by (simp add: steps_def)
    with 1 assms(1) have "R w (snd (handler msg w'))" by (blast dest: transpD)
    then show ?thesis using b Thr by (simp add: try_catch_def)
  qed (use 1 b in \<open>simp_all add: try_catch_def\<close>)
qed

lemma steps_load_services [steps_intros]:
  "reflp R \<Longrightarrow> transp R \<Longrightarrow> (\<And>svc. steps R (load_service pf svc)) \<Longrightarrow>
   steps R (load_services pf svcs)"
  by (induction svcs) (simp_all add: steps_skip steps_bind)

lemma steps_load_supervisor_services [steps_intros]:
  "reflp R \<Longrightarrow> transp R \<Longrightarrow> (\<And>svc. steps R (load_service pf svc)) \<Longrightarrow>
   steps R (load_supervisor_services pf directive)"
  by (cases directive) (simp_all add: steps_skip steps_load_services)


lemma extends_iff: "extends w w' = (trace w' = trace w @ new_events w w')"
  unfolding extends_def new_events_def by (metis append_take_drop_id append_eq_conv_conj)

lemma emits_iff: "emits P w w' = (\<exists>evs. trace w' = trace w @ evs \<and> list_all P evs)"
  unfolding emits_def extends_iff by (auto simp: new_events_def)

lemma emits_refl [steps_intros]: "reflp (emits P)"
  by (rule reflpI) (simp add: emits_iff)

lemma emits_trans [steps_intros]: "transp (emits P)"
proof (rule transpI)
  fix x y z
  assume "emits P x y" "emits P y z"
  then obtain a b where "trace y = trace x @ a" "list_all P a" "trace z = trace y @ b" "list_all P b"
    by (auto simp: emits_iff)
  then have "trace z = trace x @ (a @ b) \<and> list_all P (a @ b)" by simp
  then show "emits P x z" unfolding emits_iff by blast
qed

lemma keeps_refl [steps_intros]: "reflp (keeps p)"
  by (rule reflpI) (simp add: keeps_def)

lemma keeps_trans [steps_intros]: "transp (keeps p)"
  by (rule transpI) (simp add: keeps_def)

lemma emits_emit: "P e \<Longrightarrow> emits P w (emit e w)"
  by (simp add: emits_iff emit_def)

lemma emits_emit2: "P e \<Longrightarrow> P e' \<Longrightarrow> emits P w (emit e' (emit e w))"
  by (simp add: emits_iff emit_def)

lemma emit_files [simp]: "files (emit e w) = files w"
  by (simp add: emit_def)

lemma emits_files [simp]: "emits P (w\<lparr>files := fs\<rparr>) w' = emits P w w'"
  by (simp add: emits_def extends_def new_events_def)

named_theorems emits_intros

lemma emits_log [emits_intros]: "P e \<Longrightarrow> steps (emits P) (log e)"
  by (simp add: steps_def log_def emits_emit)

lemma emits_core_info [emits_intros]: "P (Info msg) \<Longrightarrow> steps (emits P) (core_info msg)"
  by (simp add: core_info_def emits_log)

lemma emits_console_info [emits_intros]:
  "P (ConsoleInfo msg) \<Longrightarrow> steps (emits P) (console_info msg)"
  by (simp add: console_info_def emits_log)

lemma emits_core_startGroup [emits_intros]:
  "P (StartGroup name) \<Longrightarrow> steps (emits P) (core_startGroup name)"
  by (simp add: core_startGroup_def emits_log)

lemma emits_core_endGroup [emits_intros]: "P EndGroup \<Longrightarrow> steps (emits P) core_endGroup"
  by (simp add: core_endGroup_def emits_log)

lemma emits_core_setFailed [emits_intros]:
  "P (SetFailed msg) \<Longrightarrow> steps (emits P) (core_setFailed msg)"
  by (simp add: core_setFailed_def emits_log)

lemma emits_core_exportVariable [emits_intros]:
  "P (ExportVariable name val) \<Longrightarrow> (\<And>msg. P (Threw msg)) \<Longrightarrow>
   steps (emits P) (core_exportVariable pf name val)"
  by (simp add: steps_def core_exportVariable_def emits_emit emits_emit2 split: option.splits)

lemma emits_io_which [emits_intros]:
  "P (Which tool) \<Longrightarrow> (\<And>msg. P (Threw msg)) \<Longrightarrow> steps (emits P) (io_which pf tool)"
  by (simp add: steps_def io_which_def emits_emit emits_emit2 split: sum.splits)

lemma emits_exec_listen [emits_intros]:
  "P (Exec commandLine args env) \<Longrightarrow> (\<And>msg. P (Threw msg)) \<Longrightarrow>
   steps (emits P) (exec_listen pf commandLine args env listener s)"
  using emits_emit [of P _ "w\<lparr>files := fs\<rparr>" for w fs] emits_emit2 [of P _ _ "w\<lparr>files := fs\<rparr>" for w fs]
  by (simp add: steps_def exec_listen_def Let_def split: option.splits)

lemma emits_exec [emits_intros]:
  "P (Exec commandLine args env) \<Longrightarrow> (\<And>msg. P (Threw msg)) \<Longrightarrow>
   steps (emits P) (exec pf commandLine args env)"
  by (simp add: exec_def emits_exec_listen)

lemma emits_io_rmRF [emits_intros]:
  "P (RmRF path) \<Longrightarrow> (\<And>msg. P (Threw msg)) \<Longrightarrow> steps (emits P) (io_rmRF pf path)"
  using emits_emit [of P _ "w\<lparr>files := fs\<rparr>" for w fs] emits_emit2 [of P _ _ "w\<lparr>files := fs\<rparr>" for w fs]
  by (simp add: steps_def io_rmRF_def Let_def split: option.splits)

lemma emits_fs_existsSync [emits_intros]:
  "P (ExistsSync path) \<Longrightarrow> steps (emits P) (fs_existsSync path)"
  by (simp add: steps_def fs_existsSync_def emits_emit)

lemma emits_fs_writeFileSync [emits_intros]:
  "P (WriteFileSync path data) \<Longrightarrow> (\<And>msg. P (Threw msg)) \<Longrightarrow>
   steps (emits P) (fs_writeFileSync pf path data)"
  using emits_emit [of P _ "w\<lparr>files := fs\<rparr>" for w fs] emits_emit2 [of P _ _ "w\<lparr>files := fs\<rparr>" for w fs]
  by (simp add: steps_def fs_writeFileSync_def emits_emit emits_emit2 split: option.splits)

lemma emits_cache_restoreCache [emits_intros]:
  "P (RestoreCache paths key) \<Longrightarrow> (\<And>msg. P (Threw msg)) \<Longrightarrow>
   steps (emits P) (cache_restoreCache pf paths key)"
  using emits_emit [of P _ "w\<lparr>files := fs\<rparr>" for w fs] emits_emit2 [of P _ _ "w\<lparr>files := fs\<rparr>" for w fs]
  by (simp add: steps_def cache_restoreCache_def Let_def split: sum.splits)

lemma emits_cache_saveCache [emits_intros]:
  "P (SaveCache paths key) \<Longrightarrow> (\<And>msg. P (Threw msg)) \<Longrightarrow>
   steps (emits P) (cache_saveCache pf paths key)"
  using emits_emit [of P _ "w\<lparr>files := fs\<rparr>" for w fs] emits_emit2 [of P _ _ "w\<lparr>files := fs\<rparr>" for w fs]
  by (simp add: steps_def cache_saveCache_def Let_def split: sum.splits)

lemma guarded_once_refl [steps_intros]: "reflp (guarded_once p calls)"
  by (rule reflpI) (simp add: guarded_once_def)

lemma guarded_once_trans [steps_intros]: "transp (guarded_once p calls)"
  by (rule transpI) (auto simp: guarded_once_def)

lemma restore_calls_simps [simp]:
  "restore_calls (w\<lparr>files := fs\<rparr>) = restore_calls w"
  "restore_calls (emit e w) = restore_calls w + (if is_RestoreCache e then 1 else 0)"
  by (simp_all add: restore_calls_def emit_def)

lemma save_calls_simps [simp]:
  "save_calls (w\<lparr>files := fs\<rparr>) = save_calls w"
  "save_calls (emit e w) = save_calls w + (if is_SaveCache e then 1 else 0)"
  by (simp_all add: save_calls_def emit_def)

section \<open>Rules for weakest preconditions\<close>

lemma after_simps [simp]:
  "after f Q (Val x) w = wp (f x) Q w"
  "after f Q Ret w = Q Ret w"
  "after f Q (Thr e) w = Q (Thr e) w"
  by (simp_all add: after_def)

lemma wp_bind [simp]: "wp (bind m f) Q w = wp m (after f Q) w"
  by (simp add: wp_def bind_def after_def split: prod.splits completion.splits)

lemma wp_skip [simp]: "wp skip Q w = Q (Val ()) w"
  by (simp add: wp_def skip_def js_value_def)

lemma wp_js_value [simp]: "wp (js_value x) Q w = Q (Val x) w"
  by (simp add: wp_def js_value_def)

lemma wp_js_return [simp]: "wp js_return Q w = Q Ret w"
  by (simp add: wp_def js_return_def)

lemma wp_if_then [simp]: "wp (if_then c body) Q w = (if c then wp body Q w else Q (Val ()) w)"
  by (simp add: if_then_def)

lemma wp_if: "wp (if c then a else b) Q w = (if c then wp a Q w else wp b Q w)"
  by simp

lemma catching_simps [simp]:
  "catching handler Q (Val x) w = Q (Val x) w"
  "catching handler Q Ret w = Q Ret w"
  "catching handler Q (Thr msg) w = wp (handler msg) Q w"
  by (simp_all add: catching_def)

lemma wp_try_catch_finally [simp]:
  "wp (try_catch_finally body handler fin) Q w = wp body (catching handler (finishing fin Q)) w"
  by (auto simp: wp_def try_catch_finally_def then_finally_def catching_def finishing_def
      split: prod.splits completion.splits)

lemma wp_try_catch [simp]:
  "wp (try_catch body handler) Q w = wp body (catching handler Q) w"
  by (auto simp: wp_def try_catch_def catching_def split: prod.splits completion.splits)

lemma wp_log [simp]: "wp (log e) Q w = Q (Val ()) (emit e w)"
  by (simp add: wp_def log_def)

lemma finishing_log [simp]: "finishing (log e) Q c w = Q c (emit e w)"
  by (simp add: finishing_def)

lemma wp_fs_existsSync [simp]:
  "wp (fs_existsSync path) Q w = Q (Val (path \<in> files w)) (emit (ExistsSync path) w)"
  by (simp add: wp_def fs_existsSync_def)


named_theorems wp_any
named_theorems wp_keeps

lemma wp_exec [wp_any]:
  assumes "\<And>fs. Q (Val ()) (emit (Exec commandLine args env) (w\<lparr>files := fs\<rparr>))"
    and "\<And>fs msg.
      Q (Thr msg) (emit (Threw msg) (emit (Exec commandLine args env) (w\<lparr>files := fs\<rparr>)))"
  shows "wp (exec pf commandLine args env) Q w"
  using assms by (simp add: wp_def exec_def exec_listen_def Let_def split: option.splits)

lemma wp_io_rmRF [wp_any]:
  assumes "\<And>fs. Q (Val ()) (emit (RmRF path) (w\<lparr>files := fs\<rparr>))"
    and "\<And>fs msg. Q (Thr msg) (emit (Threw msg) (emit (RmRF path) (w\<lparr>files := fs\<rparr>)))"
  shows "wp (io_rmRF pf path) Q w"
  using assms by (simp add: wp_def io_rmRF_def Let_def split: option.splits)

lemma wp_fs_writeFileSync [wp_any, wp_keeps]:
  assumes "Q (Val ()) (emit (WriteFileSync path data) (w\<lparr>files := insert path (files w)\<rparr>))"
    and "\<And>msg. Q (Thr msg) (emit (Threw msg) (emit (WriteFileSync path data) w))"
  shows "wp (fs_writeFileSync pf path data) Q w"
  using assms by (simp add: wp_def fs_writeFileSync_def split: option.splits)

lemma wp_cache_restoreCache [wp_any]:
  assumes "\<And>fs hit. Q (Val hit) (emit (RestoreCache paths key) (w\<lparr>files := fs\<rparr>))"
    and "\<And>fs msg.
      Q (Thr msg) (emit (Threw msg) (emit (RestoreCache paths key) (w\<lparr>files := fs\<rparr>)))"
  shows "wp (cache_restoreCache pf paths key) Q w"
  using assms by (simp add: wp_def cache_restoreCache_def Let_def split: sum.splits)

lemma wp_cache_saveCache [wp_any]:
  assumes "\<And>fs cacheId. Q (Val cacheId) (emit (SaveCache paths key) (w\<lparr>files := fs\<rparr>))"
    and "\<And>fs msg.
      Q (Thr msg) (emit (Threw msg) (emit (SaveCache paths key) (w\<lparr>files := fs\<rparr>)))"
  shows "wp (cache_saveCache pf paths key) Q w"
  using assms by (simp add: wp_def cache_saveCache_def Let_def split: sum.splits)

lemma wp_exec_keeps [wp_keeps]:
  assumes "keeps_marker pf p"
    and \<open>\<And>fs. (p \<in> files w \<longrightarrow> commandLine \<noteq> ''rm -v "'' @ p @ ''"'' \<longrightarrow> p \<in> fs) \<Longrightarrow>
      Q (Val ()) (emit (Exec commandLine args env) (w\<lparr>files := fs\<rparr>))\<close>
    and \<open>\<And>fs msg. (p \<in> files w \<longrightarrow> commandLine \<noteq> ''rm -v "'' @ p @ ''"'' \<longrightarrow> p \<in> fs) \<Longrightarrow>
      Q (Thr msg) (emit (Threw msg) (emit (Exec commandLine args env) (w\<lparr>files := fs\<rparr>)))\<close>
  shows "wp (exec pf commandLine args env) Q w"
  using assms
  by (simp add: wp_def exec_def exec_listen_def Let_def keeps_marker_def split: option.splits)

lemma wp_cache_restoreCache_keeps [wp_keeps]:
  assumes "keeps_marker pf p"
    and "\<And>fs hit. (p \<in> files w \<longrightarrow> p \<in> fs) \<Longrightarrow>
      Q (Val hit) (emit (RestoreCache paths key) (w\<lparr>files := fs\<rparr>))"
    and "\<And>fs msg. (p \<in> files w \<longrightarrow> p \<in> fs) \<Longrightarrow>
      Q (Thr msg) (emit (Threw msg) (emit (RestoreCache paths key) (w\<lparr>files := fs\<rparr>)))"
  shows "wp (cache_restoreCache pf paths key) Q w"
  using assms
  by (simp add: wp_def cache_restoreCache_def Let_def keeps_marker_def split: sum.splits)

lemma wp_cache_saveCache_keeps [wp_keeps]:
  assumes "keeps_marker pf p"
    and "\<And>fs cacheId. (p \<in> files w \<longrightarrow> p \<in> fs) \<Longrightarrow>
      Q (Val cacheId) (emit (SaveCache paths key) (w\<lparr>files := fs\<rparr>))"
    and "\<And>fs msg. (p \<in> files w \<longrightarrow> p \<in> fs) \<Longrightarrow>
      Q (Thr msg) (emit (Threw msg) (emit (SaveCache paths key) (w\<lparr>files := fs\<rparr>)))"
  shows "wp (cache_saveCache pf paths key) Q w"
  using assms
  by (simp add: wp_def cache_saveCache_def Let_def keeps_marker_def split: sum.splits)

lemmas log_defs =
  core_info_def console_info_def core_startGroup_def core_endGroup_def core_setFailed_def

lemma steps_wp: "steps R m = (\<forall>w. wp m (\<lambda>c w'. R w w') w)"
  by (simp add: steps_def wp_def)

section \<open>The markers guard the cache calls\<close>

lemma wp_core_exportVariable [wp_any, wp_keeps]:
  assumes "Q (Val ()) (emit (ExportVariable name val) w)"
    and "\<And>msg. Q (Thr msg) (emit (Threw msg) (emit (ExportVariable name val) w))"
  shows "wp (core_exportVariable pf name val) Q w"
  using assms by (simp add: wp_def core_exportVariable_def split: option.splits)

lemma wp_io_which [wp_any, wp_keeps]:
  assumes "\<And>path. Q (Val path) (emit (Which tool) w)"
    and "\<And>msg. Q (Thr msg) (emit (Threw msg) (emit (Which tool) w))"
  shows "wp (io_which pf tool) Q w"
  using assms by (simp add: wp_def io_which_def split: sum.splits)

lemma wp_io_rmRF_keeps [wp_keeps]:
  assumes "keeps_marker pf p"
    and "\<And>fs. (p \<in> files w \<longrightarrow> path \<noteq> p \<longrightarrow> p \<in> fs) \<Longrightarrow>
      Q (Val ()) (emit (RmRF path) (w\<lparr>files := fs\<rparr>))"
    and "\<And>fs msg. (p \<in> files w \<longrightarrow> path \<noteq> p \<longrightarrow> p \<in> fs) \<Longrightarrow>
      Q (Thr msg) (emit (Threw msg) (emit (RmRF path) (w\<lparr>files := fs\<rparr>)))"
  shows "wp (io_rmRF pf path) Q w"
  using assms by (simp add: wp_def io_rmRF_def Let_def keeps_marker_def split: option.splits)

lemmas phase_defs =
  export_variables_def ensure_biome_def install_biome_def create_hab_user_def
  verify_installation_def link_user_cache_def update_cache_ownership_def
  install_deps_def start_supervisor_def load_service_def enable_sudoless_def

lemma rm_cached_not_restored:
  \<open>''rm -v "'' @ CACHE_LOCK_PATH @ ''"'' \<noteq> ''rm -v "'' @ RESTORE_LOCK_PATH @ ''"''\<close>
  by (simp add: CACHE_LOCK_PATH_def RESTORE_LOCK_PATH_def)

lemma removed_not_restored:
  "''bio-1.6.372-x86_64-linux.tar.gz'' \<noteq> RESTORE_LOCK_PATH"
  "''/tmp/hab-install.sh'' \<noteq> RESTORE_LOCK_PATH"
  by (simp_all add: RESTORE_LOCK_PATH_def)

lemma restore_cache_guarded:
  assumes "keeps_marker pf RESTORE_LOCK_PATH"
  shows "steps (guarded_once RESTORE_LOCK_PATH restore_calls) (restore_cache pf key)"
  unfolding steps_wp restore_cache_def
  using rm_cached_not_restored
  by (auto simp: log_defs guarded_once_def
      intro!: wp_exec_keeps [OF assms] wp_cache_restoreCache_keeps [OF assms] wp_fs_writeFileSync)

lemma post_run_guarded:
  assumes "keeps_marker pf post_CACHE_LOCK_PATH"
  shows "steps (guarded_once post_CACHE_LOCK_PATH save_calls) (post_run pf)"
  unfolding steps_wp post_run_def
  by (auto simp: log_defs guarded_once_def
      intro!: wp_cache_saveCache_keeps [OF assms] wp_fs_writeFileSync)

named_theorems keeps_intros

lemma keeps_log [keeps_intros]: "steps (keeps p) (log e)"
  by (simp add: steps_def log_def keeps_def)

lemma keeps_core_info [keeps_intros]: "steps (keeps p) (core_info msg)"
  by (simp add: core_info_def keeps_log)

lemma keeps_console_info [keeps_intros]: "steps (keeps p) (console_info msg)"
  by (simp add: console_info_def keeps_log)

lemma keeps_core_startGroup [keeps_intros]: "steps (keeps p) (core_startGroup name)"
  by (simp add: core_startGroup_def keeps_log)

lemma keeps_core_endGroup [keeps_intros]: "steps (keeps p) core_endGroup"
  by (simp add: core_endGroup_def keeps_log)

lemma keeps_core_setFailed [keeps_intros]: "steps (keeps p) (core_setFailed msg)"
  by (simp add: core_setFailed_def keeps_log)

lemma keeps_core_exportVariable [keeps_intros]: "steps (keeps p) (core_exportVariable pf name val)"
  by (simp add: steps_def core_exportVariable_def keeps_def split: option.splits)

lemma keeps_io_which [keeps_intros]: "steps (keeps p) (io_which pf tool)"
  by (simp add: steps_def io_which_def keeps_def split: sum.splits)

lemma keeps_fs_existsSync [keeps_intros]: "steps (keeps p) (fs_existsSync path)"
  by (simp add: steps_def fs_existsSync_def keeps_def)

lemma keeps_fs_writeFileSync [keeps_intros]: "steps (keeps p) (fs_writeFileSync pf path data)"
  by (simp add: steps_def fs_writeFileSync_def keeps_def split: option.splits)

lemma keeps_exec [keeps_intros]:
  \<open>keeps_marker pf p \<Longrightarrow> commandLine \<noteq> ''rm -v "'' @ p @ ''"'' \<Longrightarrow>
   steps (keeps p) (exec pf commandLine args env)\<close>
  by (simp add: steps_def exec_def exec_listen_def Let_def keeps_def keeps_marker_def
      split: option.splits)

lemma keeps_io_rmRF [keeps_intros]:
  "keeps_marker pf p \<Longrightarrow> path \<noteq> p \<Longrightarrow> steps (keeps p) (io_rmRF pf path)"
  by (simp add: steps_def io_rmRF_def Let_def keeps_def keeps_marker_def split: option.splits)

lemma keeps_cache_restoreCache [keeps_intros]:
  "keeps_marker pf p \<Longrightarrow> steps (keeps p) (cache_restoreCache pf paths key)"
  by (simp add: steps_def cache_restoreCache_def Let_def keeps_def keeps_marker_def
      split: sum.splits)

lemma keeps_cache_saveCache [keeps_intros]:
  "keeps_marker pf p \<Longrightarrow> steps (keeps p) (cache_saveCache pf paths key)"
  by (simp add: steps_def cache_saveCache_def Let_def keeps_def keeps_marker_def
      split: sum.splits)

lemma emits_restore_calls:
  "emits (\<lambda>e. \<not> is_RestoreCache e) w w' \<Longrightarrow> restore_calls w' = restore_calls w"
  by (auto simp: emits_iff restore_calls_def list_all_iff filter_empty_conv)

lemma quiet_step_guarded:
  assumes "steps (keeps p) m" and "steps (emits (\<lambda>e. \<not> is_RestoreCache e)) m"
  shows "steps (guarded_once p restore_calls) m"
  unfolding steps_def
proof
  fix w
  have "keeps p w (snd (m w))" "restore_calls (snd (m w)) = restore_calls w"
    using assms emits_restore_calls by (simp_all add: steps_def)
  then show "guarded_once p restore_calls w (snd (m w))"
    by (simp add: guarded_once_def keeps_def)
qed

lemma phases_keep_restored:
  assumes "keeps_marker pf RESTORE_LOCK_PATH"
  shows "steps (keeps RESTORE_LOCK_PATH) (export_variables pf)"
    and "steps (keeps RESTORE_LOCK_PATH) (ensure_biome pf)"
    and "steps (keeps RESTORE_LOCK_PATH) (update_cache_ownership pf)"
    and "steps (keeps RESTORE_LOCK_PATH) (install_deps pf ds)"
    and "steps (keeps RESTORE_LOCK_PATH) (start_supervisor pf)"
    and "steps (keeps RESTORE_LOCK_PATH) (load_service pf svc)"
    and "steps (keeps RESTORE_LOCK_PATH) (enable_sudoless pf)"
  unfolding phase_defs
  by (intro steps_intros keeps_intros assms removed_not_restored; simp)+

lemma phases_no_restore:
  shows "steps (emits (\<lambda>e. \<not> is_RestoreCache e)) (export_variables pf)"
    and "steps (emits (\<lambda>e. \<not> is_RestoreCache e)) (ensure_biome pf)"
    and "steps (emits (\<lambda>e. \<not> is_RestoreCache e)) (update_cache_ownership pf)"
    and "steps (emits (\<lambda>e. \<not> is_RestoreCache e)) (install_deps pf ds)"
    and "steps (emits (\<lambda>e. \<not> is_RestoreCache e)) (start_supervisor pf)"
    and "steps (emits (\<lambda>e. \<not> is_RestoreCache e)) (load_service pf svc)"
    and "steps (emits (\<lambda>e. \<not> is_RestoreCache e)) (enable_sudoless pf)"
  unfolding phase_defs
  by (intro steps_intros emits_intros; simp)+

lemma run_guarded:
  assumes "keeps_marker pf RESTORE_LOCK_PATH"
  shows "steps (guarded_once RESTORE_LOCK_PATH restore_calls) (run pf cfg)"
  unfolding run_def
  by (intro steps_intros quiet_step_guarded phases_keep_restored [OF assms] phases_no_restore
      restore_cache_guarded [OF assms])

lemma post_run_skips:
  "post_CACHE_LOCK_PATH \<in> files w \<Longrightarrow> save_calls (snd (post_run pf w)) = save_calls w"
  by (simp add: post_run_def bind_def fs_existsSync_def core_info_def log_def)

lemma plain_exec_keeps:
  \<open>p \<in> files w \<Longrightarrow> commandLine \<noteq> ''rm -v "'' @ p @ ''"'' \<Longrightarrow>
   p \<in> exec_files (plain_exec w commandLine args env)\<close>
proof -
  assume p: "p \<in> files w" and c: \<open>commandLine \<noteq> ''rm -v "'' @ p @ ''"''\<close>
  have "butlast (drop 7 commandLine) \<noteq> p"
    if \<open>take 7 commandLine = ''rm -v "''\<close> "7 < length commandLine" "last commandLine = CHR 0x22"
  proof
    assume b: "butlast (drop 7 commandLine) = p"
    have d: "drop 7 commandLine \<noteq> []" using that(2) by simp
    then have "last (drop 7 commandLine) = CHR 0x22" using that(3) by simp
    with b d have "drop 7 commandLine = p @ [CHR 0x22]"
      using append_butlast_last_id [of "drop 7 commandLine"] by simp
    then have "commandLine = take 7 commandLine @ p @ [CHR 0x22]"
      using append_take_drop_id [of 7 commandLine] by simp
    with that(1) c show False by simp
  qed
  with p show ?thesis by (auto simp: plain_exec_def)
qed

lemma plain_runner_keeps: "keeps_marker plain_runner p"
  by (simp add: keeps_marker_def plain_runner_def plain_exec_keeps)

lemmas js_defs =
  bind_def fs_existsSync_def core_info_def console_info_def log_def try_catch_finally_def
  try_catch_def then_finally_def core_startGroup_def core_endGroup_def core_setFailed_def
  js_return_def fs_writeFileSync_def cache_saveCache_def cache_restoreCache_def exec_def
  exec_listen_def io_rmRF_def io_which_def core_exportVariable_def if_then_def
  Let_def skip_def js_value_def emit_def

lemmas plain_defs =
  plain_runner_def plain_exec_def RESTORE_LOCK_PATH_def CACHE_LOCK_PATH_def
  post_CACHE_LOCK_PATH_def truthy_def template_var_def restored_message_def saved_message_def

text \<open>
  C2. On a runner that keeps the marker files, two runs of the setup routine
  one after the other call \<^verbatim>\<open>cache.restoreCache\<close> at most once between them,
  and a run that starts with the restore marker in place does not call it; two
  runs of the teardown routine call \<^verbatim>\<open>cache.saveCache\<close> at most once between
  them, and a run that starts with the save marker in place does not call it.
\<close>

theorem cache_calls_at_most_once:
  "(keeps_marker pf RESTORE_LOCK_PATH \<longrightarrow>
      restore_calls (snd (run pf cfg' (snd (run pf cfg w)))) \<le> restore_calls w + 1
      \<and> (RESTORE_LOCK_PATH \<in> files w \<longrightarrow>
           restore_calls (snd (run pf cfg w)) = restore_calls w))
   \<and> (keeps_marker pf post_CACHE_LOCK_PATH \<longrightarrow>
      save_calls (snd (post_run pf (snd (post_run pf w)))) \<le> save_calls w + 1)
   \<and> (post_CACHE_LOCK_PATH \<in> files w \<longrightarrow>
      save_calls (snd (post_run pf w)) = save_calls w)"
proof (intro conjI impI)
  assume k: "keeps_marker pf RESTORE_LOCK_PATH"
  have 1: "guarded_once RESTORE_LOCK_PATH restore_calls w (snd (run pf cfg w))"
    using run_guarded [OF k, of cfg] by (simp add: steps_def)
  have 2: "guarded_once RESTORE_LOCK_PATH restore_calls (snd (run pf cfg w))
      (snd (run pf cfg' (snd (run pf cfg w))))"
    using run_guarded [OF k, of cfg'] by (simp add: steps_def)
  from 1 2 have "guarded_once RESTORE_LOCK_PATH restore_calls w
      (snd (run pf cfg' (snd (run pf cfg w))))"
    using guarded_once_trans [of RESTORE_LOCK_PATH restore_calls] by (blast dest: transpD)
  then show "restore_calls (snd (run pf cfg' (snd (run pf cfg w)))) \<le> restore_calls w + 1"
    by (simp add: guarded_once_def)
  show "restore_calls (snd (run pf cfg w)) = restore_calls w" if "RESTORE_LOCK_PATH \<in> files w"
    using 1 that by (simp add: guarded_once_def)
next
  assume k: "keeps_marker pf post_CACHE_LOCK_PATH"
  have "guarded_once post_CACHE_LOCK_PATH save_calls w (snd (post_run pf w))"
    "guarded_once post_CACHE_LOCK_PATH save_calls (snd (post_run pf w))
      (snd (post_run pf (snd (post_run pf w))))"
    using post_run_guarded [OF k] by (simp_all add: steps_def)
  then have "guarded_once post_CACHE_LOCK_PATH save_calls w
      (snd (post_run pf (snd (post_run pf w))))"
    using guarded_once_trans [of post_CACHE_LOCK_PATH save_calls] by (blast dest: transpD)
  then show "save_calls (snd (post_run pf (snd (post_run pf w)))) \<le> save_calls w + 1"
    by (simp add: guarded_once_def)
next
  assume "post_CACHE_LOCK_PATH \<in> files w"
  then show "save_calls (snd (post_run pf w)) = save_calls w"
    by (rule post_run_skips)
qed

theorem cache_calls_at_most_once_witness:
  "keeps_marker plain_runner RESTORE_LOCK_PATH
   \<and> keeps_marker plain_runner post_CACHE_LOCK_PATH
   \<and> restore_calls (snd (run plain_runner \<lparr>deps = [], supervisor = Sup_false, cacheKey = ''k''\<rparr>
        (snd (run plain_runner \<lparr>deps = [], supervisor = Sup_false, cacheKey = ''k''\<rparr>
          \<lparr>files = {}, trace = []\<rparr>)))) = 1
   \<and> save_calls (snd (post_run plain_runner (snd (post_run plain_runner
          \<lparr>files = {}, trace = []\<rparr>)))) = 1"
proof -
  have r: "restore_calls (snd (run plain_runner \<lparr>deps = [], supervisor = Sup_false, cacheKey = ''k''\<rparr>
        (snd (run plain_runner \<lparr>deps = [], supervisor = Sup_false, cacheKey = ''k''\<rparr>
          \<lparr>files = {}, trace = []\<rparr>)))) = 1"
    by (simp add: run_def phase_defs restore_cache_def js_defs plain_defs restore_calls_def)
  have s: "save_calls (snd (post_run plain_runner (snd (post_run plain_runner
          \<lparr>files = {}, trace = []\<rparr>)))) = 1"
    by (simp add: post_run_def js_defs plain_defs save_calls_def)
  show ?thesis
    using cache_calls_at_most_once
      [of plain_runner "\<lparr>deps = [], supervisor = Sup_false, cacheKey = ''k''\<rparr>"
        "\<lparr>deps = [], supervisor = Sup_false, cacheKey = ''k''\<rparr>"
        "\<lparr>files = {}, trace = []\<rparr>"]
      plain_runner_keeps r s
    by simp
qed

section \<open>The marker is written before the cache call\<close>

lemma trace_emit [simp]: "trace (emit e w) = trace w @ [e]"
  by (simp add: emit_def)

lemma new_events_append [simp]: "new_events w (w'\<lparr>trace := trace w @ evs\<rparr>) = evs"
  by (simp add: new_events_def)

lemma marker_written_lemma:
  "wp (restore_cache pf key) (\<lambda>c w'.
      marker_first RESTORE_LOCK_PATH is_RestoreCache False (new_events w w')
      \<and> rewritten_after RESTORE_LOCK_PATH (new_events w w')) w"
  unfolding restore_cache_def
  by (auto simp: log_defs new_events_def failed_def intro!: wp_any)

lemma save_marker_written_lemma:
  "wp (post_run pf) (\<lambda>c w'.
      marker_first post_CACHE_LOCK_PATH is_SaveCache False (new_events w w')) w"
  unfolding post_run_def
  by (auto simp: log_defs new_events_def failed_def intro!: wp_any)

text \<open>
  C6. In the restore phase of the setup routine every call of
  \<^verbatim>\<open>cache.restoreCache\<close> comes after a write of the restore marker that
  succeeded, and after a call that did not fail the marker is written again.
  In the teardown routine every call of \<^verbatim>\<open>cache.saveCache\<close> comes after a
  write of the save marker that succeeded.
\<close>

theorem marker_written_before_cache_call:
  "marker_first RESTORE_LOCK_PATH is_RestoreCache False
      (new_events w (snd (restore_cache pf key w)))
   \<and> rewritten_after RESTORE_LOCK_PATH (new_events w (snd (restore_cache pf key w)))
   \<and> marker_first post_CACHE_LOCK_PATH is_SaveCache False (new_events w (snd (post_run pf w)))"
  using marker_written_lemma [of pf key w] save_marker_written_lemma [of pf w]
  by (simp add: wp_def)

theorem marker_written_before_cache_call_witness:
  "new_events \<lparr>files = {}, trace = []\<rparr>
      (snd (restore_cache plain_runner ''k'' \<lparr>files = {}, trace = []\<rparr>)) =
     [ExistsSync ''/hab/cache/artifacts/.restored'',
      StartGroup ''Restoring package cache'',
      Info ''Initializing runner-writable /hab/cache'',
      Exec ''mkdir -p /hab/cache/artifacts'' [] False,
      Info ''Writing restore lock: /hab/cache/artifacts/.restored'',
      WriteFileSync ''/hab/cache/artifacts/.restored'' [],
      ConsoleInfo ''Calling restoreCache: k'',
      RestoreCache [''/hab/cache/artifacts''] ''k'',
      Info ''No cache restored'',
      Info ''Re-writing restore lock: /hab/cache/artifacts/.restored'',
      WriteFileSync ''/hab/cache/artifacts/.restored'' [],
      ExistsSync ''/hab/cache/artifacts/.cached'',
      EndGroup]
   \<and> marker_first RESTORE_LOCK_PATH is_RestoreCache False
      (new_events \<lparr>files = {}, trace = []\<rparr>
        (snd (restore_cache plain_runner ''k'' \<lparr>files = {}, trace = []\<rparr>)))
   \<and> new_events \<lparr>files = {}, trace = []\<rparr> (snd (post_run plain_runner \<lparr>files = {}, trace = []\<rparr>)) =
     [ExistsSync ''/hab/pkgs/.cached'',
      StartGroup ''Saving package cache'',
      WriteFileSync ''/hab/pkgs/.cached'' [],
      SaveCache [''/hab/pkgs''] ''hab-pkgs'',
      Info ''Saved cache 7'',
      EndGroup]
   \<and> marker_first post_CACHE_LOCK_PATH is_SaveCache False
      (new_events \<lparr>files = {}, trace = []\<rparr> (snd (post_run plain_runner \<lparr>files = {}, trace = []\<rparr>)))"
  using marker_written_before_cache_call [of "\<lparr>files = {}, trace = []\<rparr>" plain_runner "''k''"]
  by (simp add: restore_cache_def post_run_def js_defs plain_defs new_events_def show_int_def
      failed_def)


section \<open>A failed save\<close>

text \<open>
  C7. On a runner that keeps the save marker: when the call of
  \<^verbatim>\<open>cache.saveCache\<close> in the teardown routine fails with a message, the
  routine returns, what follows the failure is the report of that message
  under the prefix of the save phase and the end of the log group, no
  other call of \<^verbatim>\<open>cache.saveCache\<close> is made, and the save marker is still
  there.
\<close>

theorem failed_save_is_reported:
  assumes "keeps_marker pf post_CACHE_LOCK_PATH"
  shows "new_events w (snd (post_run pf w)) = pre @ SaveCache paths key # Threw msg # post \<longrightarrow>
    fst (post_run pf w) = Ret
    \<and> post = [SetFailed (''Failed to save package cache: '' @ msg), EndGroup]
    \<and> \<not> list_ex is_SaveCache pre
    \<and> post_CACHE_LOCK_PATH \<in> files (snd (post_run pf w))"
proof -
  have "wp (post_run pf) (\<lambda>c w'.
      new_events w w' = pre @ SaveCache paths key # Threw msg # post \<longrightarrow>
      c = Ret
      \<and> post = [SetFailed (''Failed to save package cache: '' @ msg), EndGroup]
      \<and> \<not> list_ex is_SaveCache pre
      \<and> post_CACHE_LOCK_PATH \<in> files w') w"
    unfolding post_run_def
    by (auto simp: log_defs new_events_def Cons_eq_append_conv
        intro!: wp_cache_saveCache_keeps [OF assms] wp_fs_writeFileSync)
  then show ?thesis by (simp add: wp_def)
qed


theorem failed_save_is_reported_witness:
  "keeps_marker (plain_runner\<lparr>saveCache_result := (\<lambda>w paths key. (Inl ''quota'', files w))\<rparr>)
      post_CACHE_LOCK_PATH
   \<and> new_events \<lparr>files = {}, trace = []\<rparr>
        (snd (post_run (plain_runner\<lparr>saveCache_result := (\<lambda>w paths key. (Inl ''quota'', files w))\<rparr>)
          \<lparr>files = {}, trace = []\<rparr>)) =
      [ExistsSync ''/hab/pkgs/.cached'', StartGroup ''Saving package cache'',
       WriteFileSync ''/hab/pkgs/.cached'' []]
      @ SaveCache [''/hab/pkgs''] ''hab-pkgs'' # Threw ''quota''
      # [SetFailed ''Failed to save package cache: quota'', EndGroup]
   \<and> fst (post_run (plain_runner\<lparr>saveCache_result := (\<lambda>w paths key. (Inl ''quota'', files w))\<rparr>)
          \<lparr>files = {}, trace = []\<rparr>) = Ret
   \<and> post_CACHE_LOCK_PATH \<in> files
        (snd (post_run (plain_runner\<lparr>saveCache_result := (\<lambda>w paths key. (Inl ''quota'', files w))\<rparr>)
          \<lparr>files = {}, trace = []\<rparr>))"
proof -
  have k: "keeps_marker (plain_runner\<lparr>saveCache_result := (\<lambda>w paths key. (Inl ''quota'', files w))\<rparr>)
      post_CACHE_LOCK_PATH"
    by (simp add: keeps_marker_def plain_runner_def plain_exec_keeps)
  have e: "new_events \<lparr>files = {}, trace = []\<rparr>
        (snd (post_run (plain_runner\<lparr>saveCache_result := (\<lambda>w paths key. (Inl ''quota'', files w))\<rparr>)
          \<lparr>files = {}, trace = []\<rparr>)) =
      [ExistsSync ''/hab/pkgs/.cached'', StartGroup ''Saving package cache'',
       WriteFileSync ''/hab/pkgs/.cached'' []]
      @ SaveCache [''/hab/pkgs''] ''hab-pkgs'' # Threw ''quota''
      # [SetFailed ''Failed to save package cache: quota'', EndGroup]"
    by (simp add: post_run_def js_defs plain_defs new_events_def)
  show ?thesis
    using failed_save_is_reported [OF k, of "\<lparr>files = {}, trace = []\<rparr>"
        "[ExistsSync ''/hab/pkgs/.cached'', StartGroup ''Saving package cache'',
          WriteFileSync ''/hab/pkgs/.cached'' []]"
        "[''/hab/pkgs'']" "''hab-pkgs''" "''quota''"
        "[SetFailed ''Failed to save package cache: quota'', EndGroup]"] k e
    by simp
qed

section \<open>The save marker of the setup routine is not the one of the teardown routine\<close>

text \<open>
  C1. The setup routine erases \<^verbatim>\<open>/hab/cache/artifacts/.cached\<close>, the teardown
  routine checks and writes \<^verbatim>\<open>/hab/pkgs/.cached\<close>. On a runner where every call
  succeeds and a save marker of the teardown routine is left over, the setup
  routine completes with that marker still in place, and the teardown routine
  that follows skips the save.
\<close>

theorem leftover_save_marker_survives_setup:
  "CACHE_LOCK_PATH \<noteq> post_CACHE_LOCK_PATH
   \<and> fst (run plain_runner \<lparr>deps = [], supervisor = Sup_false, cacheKey = ''k''\<rparr>
        \<lparr>files = {''/hab/pkgs/.cached''}, trace = []\<rparr>) = Val ()
   \<and> post_CACHE_LOCK_PATH \<in> files
        (snd (run plain_runner \<lparr>deps = [], supervisor = Sup_false, cacheKey = ''k''\<rparr>
          \<lparr>files = {''/hab/pkgs/.cached''}, trace = []\<rparr>))
   \<and> new_events
        (snd (run plain_runner \<lparr>deps = [], supervisor = Sup_false, cacheKey = ''k''\<rparr>
          \<lparr>files = {''/hab/pkgs/.cached''}, trace = []\<rparr>))
        (snd (post_run plain_runner
          (snd (run plain_runner \<lparr>deps = [], supervisor = Sup_false, cacheKey = ''k''\<rparr>
            \<lparr>files = {''/hab/pkgs/.cached''}, trace = []\<rparr>)))) =
      [ExistsSync ''/hab/pkgs/.cached'',
       Info ''Skipping caching, /hab/pkgs/.cached already exists'']"
  by (simp add: run_def phase_defs restore_cache_def post_run_def js_defs plain_defs
      new_events_def)

end
